theory Spec2Isabelle
  imports Complex_Main "HOL-Library.List_Lexorder" "HOL-Library.Char_ord"
begin

section \<open>The calculator of simple_calculator.cpp\<close>

text \<open>
  The program is a recursive-descent calculator. Its state is global: the standard input
  \<open>cin\<close>, the token stream \<open>ts\<close> with its \<open>buffer\<close>, the table \<open>names\<close>,
  \<open>current_precision\<close> and \<open>current_filename\<close>. The model passes one record with these
  fields through every function. An exception (\<open>error(...)\<close> throws \<open>runtime_error\<close>) is
  the \<open>Inl\<close> branch of the result, together with the state at the moment of the throw:
  what was written to a global before a throw stays written.

  The result of a function is \<open>None\<close> where the source has no defined result: it reads a
  variable that was never written (the character \<open>ch\<close> after a failed \<open>cin.get\<close>, the
  locals of \<open>load_env\<close> after a failed extraction), it loops forever on an exhausted
  input, or the model's recursion budget is used up.
\<close>

subsection \<open>Characters\<close>

definition isspace :: "char \<Rightarrow> bool" where
  "isspace c = (c \<in> set [CHR '' '', CHR 0x09, CHR 0x0A, CHR 0x0B, CHR 0x0C, CHR 0x0D])"

definition isdigit :: "char \<Rightarrow> bool" where
  "isdigit c = (c \<in> set ''0123456789'')"

definition isalpha :: "char \<Rightarrow> bool" where
  "isalpha c = (c \<in> set ''abcdefghijklmnopqrstuvwxyzABCDEFGHIJKLMNOPQRSTUVWXYZ'')"

subsection \<open>The type double and the library\<close>

text \<open>
  The values are C++ doubles. The model is polymorphic in the type \<open>'v\<close> of values and
  takes the operations of the language and of its library (\<open>cmath\<close>, the numeric
  extraction and insertion operators of the streams) as a record: a theorem about
  operations \<open>L\<close> holds for each choice of them, IEEE arithmetic included. What is
  written for a value depends on the value itself; the theorem about the saved file is
  about the operations \<open>doubles\<close> defined below.
\<close>

datatype fn = Sin | Cos | Tan | Asin | Acos | Atan | Exp | Log | Log10 | Log2

record 'v double_ops =
  d_zero :: "'v"                                \<comment> \<open>the double 0\<close>
  d_add :: "'v \<Rightarrow> 'v \<Rightarrow> 'v"
  d_sub :: "'v \<Rightarrow> 'v \<Rightarrow> 'v"
  d_mul :: "'v \<Rightarrow> 'v \<Rightarrow> 'v"
  d_div :: "'v \<Rightarrow> 'v \<Rightarrow> 'v"
  d_neg :: "'v \<Rightarrow> 'v"
  d_fmod :: "'v \<Rightarrow> 'v \<Rightarrow> 'v"
  d_pow :: "'v \<Rightarrow> 'v \<Rightarrow> 'v"
  d_call :: "fn \<Rightarrow> 'v \<Rightarrow> 'v"                  \<comment> \<open>sin, cos, ..., log2 of cmath\<close>
  d_is_zero :: "'v \<Rightarrow> bool"                     \<comment> \<open>\<open>d == 0\<close>\<close>
  d_to_int :: "'v \<Rightarrow> int option"               \<comment> \<open>\<open>static_cast<int>(d)\<close>, defined when the truncated value fits an int\<close>
  d_read :: "string \<Rightarrow> 'v option \<times> string"     \<comment> \<open>\<open>stream >> d\<close> at a non-blank character: the value read, if one is, and the rest of the input\<close>
  d_fixed :: "nat \<Rightarrow> 'v \<Rightarrow> string"              \<comment> \<open>\<open>out << d\<close> under \<open>ios::fixed\<close> with the given precision\<close>

subsection \<open>Tokens\<close>

datatype id = none | quit | print | number | name_token | const_token | char_token
  | help_token | function_token | precision_token | set_precision_token
  | show_env_token | save_env_token | load_env_token

text \<open>
  The struct \<open>Token\<close>. The field \<open>function\<close> is a pointer to a unary function of cmath,
  or the null pointer: here the name of the function, or \<open>None\<close>. The fields \<open>value\<close>,
  \<open>name\<close> and \<open>function\<close> of the source are \<open>tvalue\<close>, \<open>tname\<close> and \<open>tfunction\<close>.
\<close>

record 'v Token =
  kind :: id
  symbol :: char
  tvalue :: "'v"
  tname :: string
  tfunction :: "fn option"

text \<open>The six constructors of \<open>Token\<close>.\<close>

definition Token_none :: "'v double_ops \<Rightarrow> 'v Token" where
  "Token_none L = \<lparr>kind = none, symbol = CHR 0x00, tvalue = d_zero L, tname = [], tfunction = None\<rparr>"

definition Token_id :: "'v double_ops \<Rightarrow> id \<Rightarrow> 'v Token" where
  "Token_id L tk = \<lparr>kind = tk, symbol = CHR 0x00, tvalue = d_zero L, tname = [], tfunction = None\<rparr>"

definition Token_char :: "'v double_ops \<Rightarrow> char \<Rightarrow> 'v Token" where
  "Token_char L ch = \<lparr>kind = char_token, symbol = ch, tvalue = d_zero L, tname = [], tfunction = None\<rparr>"

definition Token_double :: "'v \<Rightarrow> 'v Token" where
  "Token_double v = \<lparr>kind = number, symbol = CHR 0x00, tvalue = v, tname = [], tfunction = None\<rparr>"

definition Token_string :: "'v double_ops \<Rightarrow> string \<Rightarrow> 'v Token" where
  "Token_string L str = \<lparr>kind = name_token, symbol = CHR 0x00, tvalue = d_zero L, tname = str, tfunction = None\<rparr>"

definition Token_function :: "'v double_ops \<Rightarrow> string \<Rightarrow> fn option \<Rightarrow> 'v Token" where
  "Token_function L str f = \<lparr>kind = function_token, symbol = CHR 0x00, tvalue = d_zero L, tname = str, tfunction = f\<rparr>"

definition is_symbol :: "'v Token \<Rightarrow> char \<Rightarrow> bool" where
  "is_symbol t c = (kind t = char_token \<and> symbol t = c)"

definition is_function :: "'v Token \<Rightarrow> bool" where
  "is_function t = (kind t = function_token)"

subsection \<open>The table of names\<close>

text \<open>
  The struct \<open>Value\<close> (its fields \<open>name\<close> and \<open>value\<close> are \<open>vname\<close> and \<open>val\<close>
  here) and the global
  \<open>map<string,Value> names\<close>. A \<open>std::map\<close> keeps its entries in increasing order of the
  keys and is iterated in that order: the model is the list of the entries in that order,
  and \<open>names_put\<close> is the assignment \<open>names[s] = v\<close>.
\<close>

record 'v Value =
  vname :: string
  val :: "'v"
  is_const :: bool

type_synonym 'v names_map = "(string \<times> 'v Value) list"

fun names_put :: "string \<Rightarrow> 'v Value \<Rightarrow> 'v names_map \<Rightarrow> 'v names_map" where
  "names_put s v [] = [(s, v)]"
| "names_put s v ((k, w) # m) =
     (if s < k then (s, v) # (k, w) # m
      else if s = k then (s, v) # m
      else (k, w) # names_put s v m)"

subsection \<open>The state\<close>

datatype error = Runtime_error string

record 'v calc =
  buffer :: "'v Token list"              \<comment> \<open>the queue of \<open>ts\<close>, its front first\<close>
  cin :: string                          \<comment> \<open>the characters not yet read\<close>
  cin_fail :: bool                       \<comment> \<open>the failbit of \<open>cin\<close>\<close>
  names :: "'v names_map"
  current_precision :: int
  current_filename :: string
  files :: "(string \<times> string) list"      \<comment> \<open>the files that can be opened for reading, with their contents\<close>
  readonly :: "string list"              \<comment> \<open>the names that cannot be opened for writing\<close>

type_synonym ('v, 'a) result = "((error + 'a) \<times> 'v calc) option"

definition throw :: "string \<Rightarrow> 'v calc \<Rightarrow> ('v, 'a) result" where
  "throw msg s = Some (Inl (Runtime_error msg), s)"

definition return :: "'a \<Rightarrow> 'v calc \<Rightarrow> ('v, 'a) result" where
  "return x s = Some (Inr x, s)"

text \<open>Sequencing: a throw or a missing result of the first part is that of the whole.\<close>

definition bind :: "('v, 'a) result \<Rightarrow> ('a \<Rightarrow> 'v calc \<Rightarrow> ('v, 'b) result) \<Rightarrow> ('v, 'b) result" where
  "bind m f = (case m of None \<Rightarrow> None
     | Some (Inl e, s) \<Rightarrow> Some (Inl e, s)
     | Some (Inr x, s) \<Rightarrow> f x s)"

subsection \<open>The operations on names\<close>

definition is_declared :: "'v calc \<Rightarrow> string \<Rightarrow> bool" where
  "is_declared s n = (map_of (names s) n \<noteq> None)"

definition is_constant :: "'v calc \<Rightarrow> string \<Rightarrow> bool" where
  "is_constant s n = (case map_of (names s) n of None \<Rightarrow> False | Some v \<Rightarrow> is_const v)"

definition get_value :: "string \<Rightarrow> 'v calc \<Rightarrow> ('v, 'v) result" where
  "get_value n s = (case map_of (names s) n of
       Some v \<Rightarrow> return (val v) s
     | None \<Rightarrow> throw (''get: undefined name '' @ n) s)"

text \<open>
  \<open>set_value\<close>: the source has no \<open>return\<close> after \<open>names[s].value=d\<close>, so the call of
  \<open>error\<close> that follows the \<open>if\<close> is reached in every case.
\<close>

definition set_value :: "string \<Rightarrow> 'v \<Rightarrow> 'v calc \<Rightarrow> ('v, unit) result" where
  "set_value n d s = (case map_of (names s) n of
       Some v \<Rightarrow>
         if is_const v then throw (''set: const name '' @ n) s
         else throw (''set: undefined name '' @ n)
                (s\<lparr>names := names_put n (v\<lparr>val := d\<rparr>) (names s)\<rparr>)
     | None \<Rightarrow> throw (''set: undefined name '' @ n) s)"

definition define_name :: "string \<Rightarrow> 'v \<Rightarrow> bool \<Rightarrow> 'v calc \<Rightarrow> 'v calc" where
  "define_name n d c s = s\<lparr>names := names_put n \<lparr>vname = n, val = d, is_const = c\<rparr> (names s)\<rparr>"

subsection \<open>The token stream\<close>

text \<open>
  \<open>unget\<close> is \<open>buffer.push(t)\<close> on a \<open>std::queue\<close>: the token goes to the back of the
  queue, and \<open>get\<close> takes from the front.
\<close>

definition unget :: "'v Token \<Rightarrow> 'v calc \<Rightarrow> 'v calc" where
  "unget t s = s\<lparr>buffer := buffer s @ [t]\<rparr>"

text \<open>
  \<open>read_word_after_keyword\<close> and \<open>read_filename\<close> read from \<open>cin\<close> directly. With
  nothing left to read the character \<open>ch\<close> they test was never written: no result.
  With only blanks left, \<open>ch\<close> is the last blank.
\<close>

definition quoted :: "string \<Rightarrow> string" where
  "quoted w = CHR 0x27 # w @ [CHR 0x27]"

definition read_word_after_keyword :: "string \<Rightarrow> 'v calc \<Rightarrow> ('v, string) result" where
  "read_word_after_keyword keyword s =
     (if cin s = [] \<or> cin_fail s then None
      else case dropWhile isspace (cin s) of
        [] \<Rightarrow> throw (''\<newline>Expected 'env' after '' @ quoted keyword @ ''\<newline>'') (s\<lparr>cin := []\<rparr>)
      | ch # rest \<Rightarrow>
          (let next = (if isalpha ch then ch # takeWhile isalpha rest else []);
               s' = (if isalpha ch then s\<lparr>cin := dropWhile isalpha rest\<rparr> else s\<lparr>cin := ch # rest\<rparr>)
           in if next \<noteq> ''env''
              then throw (''\<newline>Expected 'env' after '' @ quoted keyword @ ''\<newline>'') s'
              else return next s'))"

definition filename_char :: "char \<Rightarrow> bool" where
  "filename_char ch = (isalpha ch \<or> isdigit ch \<or> ch = CHR ''_'' \<or> ch = CHR ''.'' \<or> ch = CHR ''-'')"

definition read_filename :: "string \<Rightarrow> 'v calc \<Rightarrow> ('v, string) result" where
  "read_filename command s =
     (if cin s = [] \<or> cin_fail s then None
      else case dropWhile isspace (cin s) of
        [] \<Rightarrow> throw (''\<newline>Expected filename after '' @ quoted command @ ''\<newline>'') (s\<lparr>cin := []\<rparr>)
      | ch # rest \<Rightarrow>
          if isalpha ch
          then return (ch # takeWhile filename_char rest) (s\<lparr>cin := dropWhile filename_char rest\<rparr>)
          else throw (''\<newline>Expected filename after '' @ quoted command @ ''\<newline>'') (s\<lparr>cin := rest\<rparr>))"

text \<open>
  The part of \<open>Token_stream::get\<close> after a word \<open>w\<close> (a letter and the letters and digits
  that follow it) has been read: the keywords, the names of functions, and the plain
  names, in the order of the source. \<open>cin >> next\<close> after \<open>set\<close> reads up to the next
  blank.
\<close>

definition get_word :: "'v double_ops \<Rightarrow> string \<Rightarrow> 'v calc \<Rightarrow> ('v, 'v Token) result" where
  "get_word L w s =
     (if w = ''quit'' then return (Token_id L quit) s
      else if w = ''const'' then return (Token_id L const_token) s
      else if w = ''help'' then return (Token_id L help_token) s
      else if w = ''precision'' then return (Token_id L precision_token) s
      else if w = ''set'' then
        (let c = dropWhile isspace (cin s);
             next = takeWhile (\<lambda>ch. \<not> isspace ch) c;
             s' = s\<lparr>cin := dropWhile (\<lambda>ch. \<not> isspace ch) c\<rparr>
         in if next = ''precision'' then return (Token_id L set_precision_token) s'
            else throw (''Expected 'precision' after '' @ quoted ''set'') s')
      else if w = ''show'' then
        bind (read_word_after_keyword ''show'' s) (\<lambda>_. return (Token_id L show_env_token))
      else if w = ''save'' then
        bind (read_word_after_keyword ''save'' s) (\<lambda>_ s1.
        bind (read_filename ''save'' s1) (\<lambda>f s2.
          return (Token_id L save_env_token) (s2\<lparr>current_filename := f\<rparr>)))
      else if w = ''load'' then
        bind (read_word_after_keyword ''load'' s) (\<lambda>_ s1.
        bind (read_filename ''load'' s1) (\<lambda>f s2.
          return (Token_id L load_env_token) (s2\<lparr>current_filename := f\<rparr>)))
      else if w = ''sin'' then return (Token_function L w (Some Sin)) s
      else if w = ''cos'' then return (Token_function L w (Some Cos)) s
      else if w = ''tan'' then return (Token_function L w (Some Tan)) s
      else if w = ''asin'' then return (Token_function L w (Some Asin)) s
      else if w = ''acos'' then return (Token_function L w (Some Acos)) s
      else if w = ''atan'' then return (Token_function L w (Some Atan)) s
      else if w = ''exp'' then return (Token_function L w (Some Exp)) s
      else if w = ''pow'' then return (Token_function L w None) s
      else if w = ''ln'' then return (Token_function L w (Some Log)) s
      else if w = ''log10'' then return (Token_function L w (Some Log10)) s
      else if w = ''log2'' then return (Token_function L w (Some Log2)) s
      else return (Token_string L w) s)"

text \<open>
  \<open>Token_stream::get\<close>. A token of the buffer is returned first. Otherwise the blanks of
  \<open>cin\<close> are skipped and the next character decides. With \<open>cin\<close> exhausted or failed the
  loop \<open>do { cin.get(ch); } while(isspace(ch))\<close> tests a character that was not read: no
  result. A number that \<open>cin >> val\<close> cannot read leaves 0 in \<open>val\<close> and sets the
  failbit.
\<close>

definition get :: "'v double_ops \<Rightarrow> 'v calc \<Rightarrow> ('v, 'v Token) result" where
  "get L s =
     (case buffer s of
        t # b \<Rightarrow> return t (s\<lparr>buffer := b\<rparr>)
      | [] \<Rightarrow>
         (if cin_fail s then None
          else (case dropWhile isspace (cin s) of
            [] \<Rightarrow> None
          | ch # rest \<Rightarrow>
             (if ch \<in> set ''()+-*/%=,'' then return (Token_char L ch) (s\<lparr>cin := rest\<rparr>)
              else if ch = CHR '';'' then return (Token_id L print) (s\<lparr>cin := rest\<rparr>)
              else if ch = CHR ''.'' \<or> isdigit ch then
                (case d_read L (ch # rest) of
                   (Some v, rest') \<Rightarrow> return (Token_double v) (s\<lparr>cin := rest'\<rparr>)
                 | (None, rest') \<Rightarrow>
                     return (Token_double (d_zero L)) (s\<lparr>cin := rest', cin_fail := True\<rparr>))
              else if isalpha ch then
                get_word L (ch # takeWhile (\<lambda>c. isalpha c \<or> isdigit c) rest)
                  (s\<lparr>cin := dropWhile (\<lambda>c. isalpha c \<or> isdigit c) rest\<rparr>)
              else throw ''Bad token'' (s\<lparr>cin := rest\<rparr>)))))"

subsection \<open>The parser\<close>

text \<open>
  \<open>function_name\<close>, \<open>primary\<close>, \<open>term\<close> and \<open>expression\<close> call each other. The first
  argument \<open>n\<close> of the model bounds the depth of the calls: each call, and each turn of the
  loops \<open>while(true)\<close> of \<open>term\<close> and \<open>expression\<close> (here \<open>term_loop\<close> and
  \<open>expression_loop\<close>, with the local \<open>left\<close> as argument), uses one unit. \<open>term\<close> is
  written \<open>term'\<close>.
\<close>

fun function_name :: "'v double_ops \<Rightarrow> nat \<Rightarrow> 'v calc \<Rightarrow> ('v, 'v) result"
and primary :: "'v double_ops \<Rightarrow> nat \<Rightarrow> 'v calc \<Rightarrow> ('v, 'v) result"
and term' :: "'v double_ops \<Rightarrow> nat \<Rightarrow> 'v calc \<Rightarrow> ('v, 'v) result"
and term_loop :: "'v double_ops \<Rightarrow> nat \<Rightarrow> 'v \<Rightarrow> 'v calc \<Rightarrow> ('v, 'v) result"
and expression :: "'v double_ops \<Rightarrow> nat \<Rightarrow> 'v calc \<Rightarrow> ('v, 'v) result"
and expression_loop :: "'v double_ops \<Rightarrow> nat \<Rightarrow> 'v \<Rightarrow> 'v calc \<Rightarrow> ('v, 'v) result"
where
  "function_name L 0 s = None"
| "function_name L (Suc n) s =
     bind (get L s) (\<lambda>t s1.
       if \<not> is_function t then throw ''function name expected'' s1
       else bind (get L s1) (\<lambda>tt s2.
         if \<not> is_symbol tt (CHR ''('') then throw (quoted ''('' @ '' expected'') s2
         else bind (expression L n s2) (\<lambda>d s3.
           bind (get L s3) (\<lambda>tt s4.
             if is_symbol tt (CHR '')'') then
               (case tfunction t of
                  Some f \<Rightarrow> return (d_call L f d) s4
                | None \<Rightarrow> throw (tname t @ '' needs two arguments'') s4)
             else if \<not> is_symbol tt (CHR '','') then throw (quoted '')'' @ '' expected'') s4
             else bind (expression L n s4) (\<lambda>dd s5.
               bind (get L s5) (\<lambda>tt s6.
                 if is_symbol tt (CHR '')'') then
                   (if tname t = ''pow'' then return (d_pow L d dd) s6
                    else throw (tname t @ '' needs only one argument'') s6)
                 else throw (quoted '')'' @ '' expected'') s6))))))"
| "primary L 0 s = None"
| "primary L (Suc n) s =
     bind (get L s) (\<lambda>t s1.
       if is_function t then function_name L n (unget t s1)
       else if kind t = char_token then
         (if is_symbol t (CHR ''('') then
            bind (expression L n s1) (\<lambda>d s2.
              bind (get L s2) (\<lambda>t s3.
                if \<not> is_symbol t (CHR '')'') then throw (quoted ''('' @ '' expected'') s3
                else return d s3))
          else if is_symbol t (CHR ''-'') then
            bind (primary L n s1) (\<lambda>d. return (d_neg L d))
          else if is_symbol t (CHR ''+'') then primary L n s1
          else throw ''primary expected'' s1)
       else if kind t = number then return (tvalue t) s1
       else if kind t = name_token then get_value (tname t) s1
       else throw ''primary expected'' s1)"
| "term' L 0 s = None"
| "term' L (Suc n) s = bind (primary L n s) (\<lambda>left. term_loop L n left)"
| "term_loop L 0 left s = None"
| "term_loop L (Suc n) left s =
     bind (get L s) (\<lambda>t s1.
       if is_symbol t (CHR ''*'') then
         bind (primary L n s1) (\<lambda>d. term_loop L n (d_mul L left d))
       else if is_symbol t (CHR ''/'') then
         bind (primary L n s1) (\<lambda>d s2.
           if d_is_zero L d then throw ''divide by zero'' s2
           else term_loop L n (d_div L left d) s2)
       else if is_symbol t (CHR ''%'') then
         bind (primary L n s1) (\<lambda>d s2.
           if d_is_zero L d then throw ''divide by zero'' s2
           else term_loop L n (d_fmod L left d) s2)
       else return left (unget t s1))"
| "expression L 0 s = None"
| "expression L (Suc n) s = bind (term' L n s) (\<lambda>left. expression_loop L n left)"
| "expression_loop L 0 left s = None"
| "expression_loop L (Suc n) left s =
     bind (get L s) (\<lambda>t s1.
       if is_symbol t (CHR ''+'') then
         bind (term' L n s1) (\<lambda>d. expression_loop L n (d_add L left d))
       else if is_symbol t (CHR ''-'') then
         bind (term' L n s1) (\<lambda>d. expression_loop L n (d_sub L left d))
       else return left (unget t s1))"

subsection \<open>Statements\<close>

definition assign :: "'v double_ops \<Rightarrow> nat \<Rightarrow> 'v calc \<Rightarrow> ('v, 'v) result" where
  "assign L n s =
     bind (get L s) (\<lambda>t s1.
       if kind t \<noteq> name_token then throw ''name expected in assign'' s1
       else if is_constant s1 (tname t) then throw (tname t @ '' constant cannot be modified'') s1
       else bind (get L s1) (\<lambda>t' s2.
         if \<not> is_symbol t' (CHR ''='') then throw (''= missing in assign of '' @ tname t) s2
         else bind (expression L n s2) (\<lambda>d s3.
           if is_declared s3 (tname t)
           then bind (set_value (tname t) d s3) (\<lambda>_. return d)
           else return d (define_name (tname t) d False s3))))"

definition constant_assign :: "'v double_ops \<Rightarrow> nat \<Rightarrow> 'v calc \<Rightarrow> ('v, 'v) result" where
  "constant_assign L n s =
     bind (get L s) (\<lambda>t s1.
       if kind t \<noteq> name_token then throw ''name expected in const assign'' s1
       else if is_declared s1 (tname t) then throw (tname t @ '' has already been defined'') s1
       else bind (get L s1) (\<lambda>t' s2.
         if \<not> is_symbol t' (CHR ''='') then throw (''= missing in assign of '' @ tname t) s2
         else bind (expression L n s2) (\<lambda>d s3.
           return d (define_name (tname t) d True s3))))"

text \<open>
  \<open>statement\<close> reads the \<open>const\<close> token itself; a name is read together with the token
  after it and both go back to the buffer, the name first.
\<close>

definition statement :: "'v double_ops \<Rightarrow> nat \<Rightarrow> 'v calc \<Rightarrow> ('v, 'v) result" where
  "statement L n s =
     bind (get L s) (\<lambda>t s1.
       if kind t = const_token then constant_assign L n s1
       else if kind t = name_token then
         bind (get L s1) (\<lambda>tt s2.
           if is_symbol tt (CHR ''='') then assign L n (unget tt (unget t s2))
           else expression L n (unget tt (unget t s2)))
       else expression L n (unget t s1))"

text \<open>
  \<open>set_precision()\<close>, which reads the number from the token stream, and the overload
  \<open>set_precision(int)\<close> that \<open>load_env\<close> calls, here \<open>set_precision_int\<close>. What they
  print is not part of the model.
\<close>

definition set_precision :: "'v double_ops \<Rightarrow> 'v calc \<Rightarrow> ('v, unit) result" where
  "set_precision L s =
     bind (get L s) (\<lambda>t s1.
       if kind t \<noteq> number then throw (''Expected a number after '' @ quoted ''set precision'') s1
       else (case d_to_int L (tvalue t) of
          None \<Rightarrow> None
        | Some digits \<Rightarrow>
            if digits < 0 \<or> digits > 20 then throw ''Precision must be between 0 and 20'' s1
            else return () (s1\<lparr>current_precision := digits\<rparr>)))"

definition set_precision_int :: "int \<Rightarrow> 'v calc \<Rightarrow> ('v, unit) result" where
  "set_precision_int digits s =
     (if digits < 0 \<or> digits > 20 then throw ''Precision must be between 0 and 20'' s
      else return () (s\<lparr>current_precision := digits\<rparr>))"

subsection \<open>Integers in decimal\<close>

text \<open>
  \<open>to_string\<close> of a non-negative \<open>int\<close>, and the extraction \<open>stream >> i\<close> of an
  \<open>int\<close> at a non-blank character: an optional sign and the digits that follow. Without
  a digit the extraction fails; a value that does not fit an \<open>int\<close> is replaced by the
  nearest one.
\<close>

definition digit_val :: "char \<Rightarrow> nat" where
  "digit_val c = of_char c - 48"

definition nat_of_digits :: "string \<Rightarrow> nat" where
  "nat_of_digits ds = foldl (\<lambda>a c. 10 * a + digit_val c) 0 ds"

function to_string :: "nat \<Rightarrow> string" where
  "to_string n =
     (if n < 10 then [''0123456789'' ! n]
      else to_string (n div 10) @ [''0123456789'' ! (n mod 10)])"
  by pat_completeness auto
termination
  by (relation "measure id") auto

declare to_string.simps [simp del]

definition read_int :: "string \<Rightarrow> int option \<times> string" where
  "read_int c =
     (let neg = (case c of ch # _ \<Rightarrow> ch = CHR ''-'' | [] \<Rightarrow> False);
          c0 = (case c of ch # r \<Rightarrow> if ch = CHR ''-'' \<or> ch = CHR ''+'' then r else c | [] \<Rightarrow> c);
          ds = takeWhile isdigit c0;
          n = int (nat_of_digits ds);
          v = (if neg then - n else n)
      in if ds = [] then (None, c0)
         else (Some (if v > 2147483647 then 2147483647
                     else if v < - 2147483648 then - 2147483648 else v),
               dropWhile isdigit c0))"

lemma read_int_length: "length (snd (read_int c)) \<le> length c"
  by (auto simp: read_int_def Let_def length_dropWhile_le le_SucI split: list.splits)

subsection \<open>The menus\<close>

text \<open>
  \<open>save_env\<close> and \<open>load_env\<close> ask for an option with the same loop:
  \<open>cin.clear(); cin.ignore(max, '\n'); cin >> option;\<close> and a \<open>switch\<close> whose
  \<open>default\<close> asks again. \<open>menu valid c\<close> is that loop on the input \<open>c\<close>: the option
  that leaves the loop and the rest of the input. A failed extraction writes 0 to
  \<open>option\<close>. When the input ends the loop cannot be left: no result.
\<close>

fun ignore_line :: "string \<Rightarrow> string option" where
  "ignore_line [] = None"
| "ignore_line (c # cs) = (if c = CHR ''\<newline>'' then Some cs else ignore_line cs)"

lemma ignore_line_length: "ignore_line c = Some c' \<Longrightarrow> length c' < length c"
  by (induction c) (auto split: if_splits)

function menu :: "int list \<Rightarrow> string \<Rightarrow> (int \<times> string) option" where
  "menu valid c =
     (case ignore_line c of
        None \<Rightarrow> None
      | Some c1 \<Rightarrow>
          (case dropWhile isspace c1 of
             [] \<Rightarrow> None
           | ch # r \<Rightarrow>
               (case read_int (ch # r) of (x, c2) \<Rightarrow>
                  (let option = (case x of None \<Rightarrow> 0 | Some k \<Rightarrow> k)
                   in if option \<in> set valid then Some (option, c2) else menu valid c2))))"
  by pat_completeness auto
termination
  apply (relation "measure (\<lambda>(valid, c). length c)")
   apply simp
  subgoal for valid c c1 ch r p x c2
    using read_int_length [of "ch # r"] length_dropWhile_le [of isspace c1]
      ignore_line_length [of c c1]
    by (cases "read_int (ch # r)") simp
  done

declare menu.simps [simp del]

subsection \<open>Showing and saving the names\<close>

definition show_env :: "'v calc \<Rightarrow> ('v, unit) result" where
  "show_env s =
     (if names s = [] then throw ''\<newline>show env: (none)\<newline>'' s else return () s)"

text \<open>What \<open>save_env\<close> writes to the file: the header, then a line for each entry of \<open>names\<close>.\<close>

definition entry_line :: "'v double_ops \<Rightarrow> nat \<Rightarrow> string \<times> 'v Value \<Rightarrow> string" where
  "entry_line L p e =
     fst e @ '' = '' @ d_fixed L p (val (snd e)) @ '' is_const = ''
       @ (if is_const (snd e) then ''1'' else ''0'') @ ''\<newline>''"

definition env_text :: "'v double_ops \<Rightarrow> nat \<Rightarrow> 'v names_map \<Rightarrow> string" where
  "env_text L p m = ''Precision = '' @ to_string p @ ''\<newline>'' @ concat (map (entry_line L p) m)"

definition save_env :: "'v double_ops \<Rightarrow> 'v calc \<Rightarrow> ('v, unit) result" where
  "save_env L s =
     (if names s = [] then throw ''\<newline>save env: No variables or constants to save.\<newline>'' s
      else (case menu [1, 2, 3] (cin s) of
         None \<Rightarrow> None
       | Some (option, c) \<Rightarrow>
           (let save_precision = (if option = 1 then 6 else if option = 2 then 12 else 19);
                s1 = s\<lparr>cin := c, cin_fail := False\<rparr>
            in if current_filename s1 \<in> set (readonly s1)
               then throw ''\<newline>save env: Could not open file for writing\<newline>'' s1
               else return ()
                 (s1\<lparr>files := (current_filename s1, env_text L save_precision (names s1)) # files s1\<rparr>))))"

subsection \<open>Loading the names\<close>

text \<open>The lines that successive calls of \<open>getline\<close> return.\<close>

fun getlines :: "string \<Rightarrow> string \<Rightarrow> string list" where
  "getlines line [] = (if line = [] then [] else [line])"
| "getlines line (c # cs) =
     (if c = CHR ''\<newline>'' then line # getlines [] cs else getlines (line @ [c]) cs)"

text \<open>\<open>stream >> word\<close> for a string: the blanks are skipped, the word ends at the next blank.\<close>

definition read_word :: "string \<Rightarrow> (string \<times> string) option" where
  "read_word c =
     (case dropWhile isspace c of
        [] \<Rightarrow> None
      | ch # r \<Rightarrow> Some (takeWhile (\<lambda>x. \<not> isspace x) (ch # r), dropWhile (\<lambda>x. \<not> isspace x) (ch # r)))"

text \<open>
  The header \<open>header >> label >> eq >> file_precision\<close>. After a failed extraction the
  later ones do nothing, and \<open>file_precision\<close>, which is printed next, was never written:
  \<open>None\<close>. An extraction of \<open>file_precision\<close> that finds no number writes 0.
\<close>

definition read_header :: "string \<Rightarrow> int option" where
  "read_header line =
     (case read_word line of
        None \<Rightarrow> None
      | Some (label, c1) \<Rightarrow>
         (case read_word c1 of
            None \<Rightarrow> None
          | Some (eq, c2) \<Rightarrow>
             (case dropWhile isspace c2 of
                [] \<Rightarrow> None
              | ch # r \<Rightarrow> (case fst (read_int (ch # r)) of None \<Rightarrow> Some 0 | Some k \<Rightarrow> Some k))))"

text \<open>
  A line of the file: \<open>stream >> name >> eq >> value >> is_const_str >> eq >> is_const\<close>.
  \<open>No_name\<close>: the line has no word, and \<open>name\<close> is empty. \<open>Unwritten\<close>: there is a name,
  and an extraction before that of \<open>is_const\<close> failed or the line ended, so \<open>is_const\<close>
  (and perhaps \<open>value\<close>) is read without having been written. \<open>Entry\<close>: the three
  values; an extraction of \<open>is_const\<close> that finds no number writes 0. The two words
  read into \<open>eq\<close> and the word \<open>is_const_str\<close> are not looked at.
\<close>

datatype 'v line = No_name | Unwritten | Entry string "'v" int

definition read_line :: "'v double_ops \<Rightarrow> string \<Rightarrow> 'v line" where
  "read_line L line =
     (case read_word line of
        None \<Rightarrow> No_name
      | Some (nm, c1) \<Rightarrow>
         (case read_word c1 of
            None \<Rightarrow> Unwritten
          | Some (eq, c2) \<Rightarrow>
             (case dropWhile isspace c2 of
                [] \<Rightarrow> Unwritten
              | ch # r \<Rightarrow>
                 (case d_read L (ch # r) of
                    (None, c3) \<Rightarrow> Unwritten
                  | (Some value, c3) \<Rightarrow>
                     (case read_word c3 of
                        None \<Rightarrow> Unwritten
                      | Some (is_const_str, c4) \<Rightarrow>
                         (case read_word c4 of
                            None \<Rightarrow> Unwritten
                          | Some (eq', c5) \<Rightarrow>
                             (case dropWhile isspace c5 of
                                [] \<Rightarrow> Unwritten
                              | ch' # r' \<Rightarrow>
                                 (case fst (read_int (ch' # r')) of
                                    None \<Rightarrow> Entry nm value 0
                                  | Some k \<Rightarrow> Entry nm value k))))))))"

text \<open>
  The renaming loop of \<open>load_env\<close>: \<open>candidate nm k\<close> is \<open>new_name\<close> in turn \<open>k\<close>.
  The loop ends because the candidates differ from each other and \<open>names\<close> is finite.
\<close>

definition candidate :: "string \<Rightarrow> nat \<Rightarrow> string" where
  "candidate nm k = nm @ ''_file'' @ (if k > 0 then to_string k else [])"

lemma digit_val_digits: "\<forall>n<10. digit_val (''0123456789'' ! n) = n"
  by (simp add: digit_val_def eval_nat_numeral All_less_Suc)

lemma digit_val_digit: "n < 10 \<Longrightarrow> digit_val (''0123456789'' ! n) = n"
  using digit_val_digits by blast

lemma nat_of_digits_snoc: "nat_of_digits (ds @ [d]) = 10 * nat_of_digits ds + digit_val d"
  by (simp add: nat_of_digits_def)

lemma nat_of_digits_to_string: "nat_of_digits (to_string n) = n"
proof (induction n rule: to_string.induct)
  case (1 n)
  show ?case
  proof (cases "n < 10")
    case True
    then show ?thesis
      using digit_val_digit [of n] by (simp add: to_string.simps [of n] nat_of_digits_def)
  next
    case False
    then have "nat_of_digits (to_string n)
        = 10 * nat_of_digits (to_string (n div 10)) + digit_val (''0123456789'' ! (n mod 10))"
      by (simp add: to_string.simps [of n] nat_of_digits_snoc)
    with False 1 show ?thesis by (simp add: digit_val_digit)
  qed
qed

lemma to_string_inject: "to_string m = to_string n \<Longrightarrow> m = n"
  by (metis nat_of_digits_to_string)

lemma to_string_not_Nil: "to_string n \<noteq> []"
  by (simp add: to_string.simps [of n])

lemma candidate_inject: "candidate nm i = candidate nm j \<Longrightarrow> i = j"
proof (cases "i > 0"; cases "j > 0")
  assume "i > 0" "j > 0"
  moreover assume "candidate nm i = candidate nm j"
  ultimately have "to_string i = to_string j" by (simp add: candidate_def)
  then show ?thesis by (rule to_string_inject)
qed (use to_string_not_Nil [of i] to_string_not_Nil [of j] in \<open>auto simp: candidate_def\<close>)

lemma finite_declared_candidates: "finite {j. is_declared s (candidate nm j)}"
proof -
  have "{j. is_declared s (candidate nm j)} = candidate nm -` dom (map_of (names s))"
    by (auto simp: is_declared_def)
  moreover have "inj (candidate nm)"
    by (rule injI) (rule candidate_inject)
  ultimately show ?thesis
    by (simp add: finite_vimageI finite_dom_map_of)
qed

function rename_loop :: "'v calc \<Rightarrow> string \<Rightarrow> nat \<Rightarrow> string" where
  "rename_loop s nm rename_attempts =
     (let new_name = nm @ ''_file'' @ (if rename_attempts > 0 then to_string rename_attempts else [])
      in if is_declared s new_name then rename_loop s nm (rename_attempts + 1) else new_name)"
  by pat_completeness auto
termination
proof (relation "measure (\<lambda>(s, nm, k). card {j. k \<le> j \<and> is_declared s (candidate nm j)})", goal_cases)
  case 1
  show ?case by simp
next
  case (2 s nm k new_name)
  then have d: "is_declared s (candidate nm k)"
    by (simp add: candidate_def)
  have fin: "finite {j. k \<le> j \<and> is_declared s (candidate nm j)}"
    using finite_declared_candidates [of s nm] by simp
  have "k \<in> {j. k \<le> j \<and> is_declared s (candidate nm j)}"
    and "k \<notin> {j. k + 1 \<le> j \<and> is_declared s (candidate nm j)}"
    using d by simp_all
  then have "{j. k + 1 \<le> j \<and> is_declared s (candidate nm j)}
      \<subset> {j. k \<le> j \<and> is_declared s (candidate nm j)}"
    by fastforce
  then show ?case
    using fin by (simp add: psubset_card_mono)
qed

declare rename_loop.simps [simp del]

text \<open>
  The loop \<open>while (getline(in, line))\<close> of \<open>load_env\<close> over the lines after the header.
  A name that is not declared is defined. A declared name is a conflict, settled by the
  option read from \<open>cin\<close>: 1 keeps the entry, 2 overwrites it, 3 defines the value of
  the file under the name that \<open>rename_loop\<close> finds.
\<close>

fun load_lines :: "'v double_ops \<Rightarrow> string list \<Rightarrow> 'v calc \<Rightarrow> ('v, unit) result" where
  "load_lines L [] s = return () s"
| "load_lines L (line # lines) s =
     (case read_line L line of
        No_name \<Rightarrow> load_lines L lines s
      | Unwritten \<Rightarrow> None
      | Entry nm value c_int \<Rightarrow>
          if \<not> is_declared s nm then load_lines L lines (define_name nm value (c_int \<noteq> 0) s)
          else (case menu [1, 2, 3] (cin s) of
             None \<Rightarrow> None
           | Some (option, c) \<Rightarrow>
               (let s1 = s\<lparr>cin := c, cin_fail := False\<rparr>
                in if option = 1 then load_lines L lines s1
                   else if option = 2 then
                     load_lines L lines
                       (s1\<lparr>names := names_put nm \<lparr>vname = nm, val = value, is_const = (c_int \<noteq> 0)\<rparr> (names s1)\<rparr>)
                   else load_lines L lines
                       (define_name (rename_loop s1 nm 0) value (c_int \<noteq> 0) s1))))"

definition load_env :: "'v double_ops \<Rightarrow> 'v calc \<Rightarrow> ('v, unit) result" where
  "load_env L s =
     (case map_of (files s) (current_filename s) of
        None \<Rightarrow> throw ''\<newline>load env: Could not open file for reading\<newline>'' s
      | Some text \<Rightarrow>
         (case getlines [] text of
            [] \<Rightarrow> return () s
          | header # lines \<Rightarrow>
             (case read_header header of
                None \<Rightarrow> None
              | Some file_precision \<Rightarrow>
                 (case menu [1, 2] (cin s) of
                    None \<Rightarrow> None
                  | Some (option, c) \<Rightarrow>
                     (let s1 = s\<lparr>cin := c, cin_fail := False\<rparr>
                      in if option = 1
                         then bind (set_precision_int file_precision s1) (\<lambda>_. load_lines L lines)
                         else load_lines L lines s1)))))"

text \<open>
  \<open>overwritten L lines s x\<close> follows the loop over the lines and tells whether a conflict
  on the name \<open>x\<close> is settled by option 2, the overwrite. \<open>load_overwritten\<close> is the
  same for the whole of \<open>load_env\<close>.
\<close>

fun overwritten :: "'v double_ops \<Rightarrow> string list \<Rightarrow> 'v calc \<Rightarrow> string \<Rightarrow> bool" where
  "overwritten L [] s x = False"
| "overwritten L (line # lines) s x =
     (case read_line L line of
        No_name \<Rightarrow> overwritten L lines s x
      | Unwritten \<Rightarrow> False
      | Entry nm value c_int \<Rightarrow>
          if \<not> is_declared s nm then overwritten L lines (define_name nm value (c_int \<noteq> 0) s) x
          else (case menu [1, 2, 3] (cin s) of
             None \<Rightarrow> False
           | Some (option, c) \<Rightarrow>
               (let s1 = s\<lparr>cin := c, cin_fail := False\<rparr>
                in if option = 1 then overwritten L lines s1 x
                   else if option = 2 then
                     nm = x \<or> overwritten L lines
                       (s1\<lparr>names := names_put nm \<lparr>vname = nm, val = value, is_const = (c_int \<noteq> 0)\<rparr> (names s1)\<rparr>) x
                   else overwritten L lines
                       (define_name (rename_loop s1 nm 0) value (c_int \<noteq> 0) s1) x)))"

definition load_overwritten :: "'v double_ops \<Rightarrow> 'v calc \<Rightarrow> string \<Rightarrow> bool" where
  "load_overwritten L s x =
     (case map_of (files s) (current_filename s) of
        None \<Rightarrow> False
      | Some text \<Rightarrow>
         (case getlines [] text of
            [] \<Rightarrow> False
          | header # lines \<Rightarrow>
             (case read_header header of
                None \<Rightarrow> False
              | Some file_precision \<Rightarrow>
                 (case menu [1, 2] (cin s) of
                    None \<Rightarrow> False
                  | Some (option, c) \<Rightarrow>
                     (let s1 = s\<lparr>cin := c, cin_fail := False\<rparr>
                      in if option = 1
                         then (case set_precision_int file_precision s1 of
                                 Some (Inr _, s2) \<Rightarrow> overwritten L lines s2 x
                               | _ \<Rightarrow> False)
                         else overwritten L lines s1 x)))))"

subsection \<open>Exact arithmetic as an instance\<close>

text \<open>
  The concrete runs below use the operations on the real numbers as \<open>double_ops\<close>.
  The runs compute only with whole numbers of moderate size, on which the arithmetic of
  the doubles is exact; a decimal fraction (3.14, 3.5) is read, stored and written, and
  never an operand. \<open>exact_read\<close> reads a decimal literal without exponent.
  \<open>exact_fixed p v\<close> is what the stream writes for a finite value under \<open>ios::fixed\<close>
  with precision \<open>p\<close>, the conversion \<open>%.pf\<close> of \<open>printf\<close>: the sign of a negative
  value, the decimal expansion of the magnitude rounded to \<open>p\<close> decimals (\<open>nearest\<close>: to
  the nearest, and to the even one of two that are equally near), and no point when
  \<open>p\<close> is 0.
\<close>

definition exact_read :: "string \<Rightarrow> real option \<times> string" where
  "exact_read c =
     (let neg = (case c of ch # _ \<Rightarrow> ch = CHR ''-'' | [] \<Rightarrow> False);
          c0 = (case c of ch # r \<Rightarrow> if ch = CHR ''-'' \<or> ch = CHR ''+'' then r else c | [] \<Rightarrow> c);
          ip = takeWhile isdigit c0;
          c1 = dropWhile isdigit c0;
          fp = (case c1 of ch # r \<Rightarrow> if ch = CHR ''.'' then takeWhile isdigit r else [] | [] \<Rightarrow> []);
          c2 = (case c1 of ch # r \<Rightarrow> if ch = CHR ''.'' then dropWhile isdigit r else c1 | [] \<Rightarrow> c1);
          v = real (nat_of_digits ip) + real (nat_of_digits fp) / 10 ^ length fp
      in if ip = [] \<and> fp = [] then (None, c2)
         else (Some (if neg then - v else v), c2))"

definition nearest :: "real \<Rightarrow> nat" where
  "nearest y =
     (let f = \<lfloor>y\<rfloor>; d = y - of_int f
      in nat (if d < 1 / 2 \<or> (d = 1 / 2 \<and> even f) then f else f + 1))"

definition exact_fixed :: "nat \<Rightarrow> real \<Rightarrow> string" where
  "exact_fixed p v =
     (let k = nearest (\<bar>v\<bar> * 10 ^ p);
          ds = to_string (k mod 10 ^ p)
      in (if v < 0 then ''-'' else [])
         @ to_string (k div 10 ^ p)
         @ (if p = 0 then [] else ''.'' @ replicate (p - length ds) (CHR ''0'') @ ds))"

definition exact_trunc :: "real \<Rightarrow> int" where
  "exact_trunc v = (if 0 \<le> v then \<lfloor>v\<rfloor> else \<lceil>v\<rceil>)"

definition exact_call :: "fn \<Rightarrow> real \<Rightarrow> real" where
  "exact_call f x =
     (case f of Sin \<Rightarrow> sin x | Cos \<Rightarrow> cos x | Tan \<Rightarrow> tan x
      | Asin \<Rightarrow> arcsin x | Acos \<Rightarrow> arccos x | Atan \<Rightarrow> arctan x
      | Exp \<Rightarrow> exp x | Log \<Rightarrow> ln x | Log10 \<Rightarrow> log 10 x | Log2 \<Rightarrow> log 2 x)"

definition exact :: "real double_ops" where
  "exact = \<lparr>
     d_zero = 0,
     d_add = (\<lambda>x y. x + y),
     d_sub = (\<lambda>x y. x - y),
     d_mul = (\<lambda>x y. x * y),
     d_div = (\<lambda>x y. x / y),
     d_neg = (\<lambda>x. - x),
     d_fmod = (\<lambda>x y. x - y * of_int (exact_trunc (x / y))),
     d_pow = (\<lambda>x y. if y \<in> \<int> then x powi \<lfloor>y\<rfloor> else x powr y),
     d_call = exact_call,
     d_is_zero = (\<lambda>x. x = 0),
     d_to_int = (\<lambda>x. if - 2147483648 \<le> exact_trunc x \<and> exact_trunc x \<le> 2147483647
                      then Some (exact_trunc x) else None),
     d_read = exact_read,
     d_fixed = exact_fixed \<rparr>"

text \<open>A state with the given input and names, and nothing else.\<close>

definition start :: "string \<Rightarrow> 'v names_map \<Rightarrow> 'v calc" where
  "start input m = \<lparr>buffer = [], cin = input, cin_fail = False, names = m,
     current_precision = 6, current_filename = [], files = [], readonly = []\<rparr>"

subsection \<open>The doubles with their infinities\<close>

















subsection \<open>One turn of the loop of calculate\<close>

text \<open>
  The body of the loop \<open>while(true)\<close> of \<open>calculate\<close>, without the handler of the
  exception: the statement terminators are skipped, the commands are told from a
  statement. \<open>help\<close> and \<open>show_precision\<close> only print. The outcome is \<open>Quit\<close> for
  the \<open>return\<close>, \<open>Continue\<close> for a \<open>continue\<close> and \<open>Result\<close> with the value that is
  printed.
\<close>

fun skip_print :: "'v double_ops \<Rightarrow> nat \<Rightarrow> 'v calc \<Rightarrow> ('v, 'v Token) result" where
  "skip_print L 0 s = None"
| "skip_print L (Suc n) s =
     bind (get L s) (\<lambda>t s1. if kind t = print then skip_print L n s1 else return t s1)"

datatype 'v outcome = Quit | Continue | Result "'v"

definition calculate_turn :: "'v double_ops \<Rightarrow> nat \<Rightarrow> 'v calc \<Rightarrow> ('v, 'v outcome) result" where
  "calculate_turn L n s =
     bind (skip_print L n s) (\<lambda>t s1.
       if kind t = quit then return Quit s1
       else if kind t = help_token then return Continue s1
       else if kind t = set_precision_token then bind (set_precision L s1) (\<lambda>_. return Continue)
       else if kind t = precision_token then return Continue s1
       else if kind t = show_env_token then bind (show_env s1) (\<lambda>_. return Continue)
       else if kind t = save_env_token then bind (save_env L s1) (\<lambda>_. return Continue)
       else if kind t = load_env_token then bind (load_env L s1) (\<lambda>_. return Continue)
       else bind (statement L n (unget t s1)) (\<lambda>v. return (Result v)))"

text \<open>
  Two states have the same environment when they agree on everything but the token
  stream, the input and the name of the current file.
\<close>

definition same_env :: "'v calc \<Rightarrow> 'v calc \<Rightarrow> bool" where
  "same_env s s' = (names s' = names s \<and> current_precision s' = current_precision s
     \<and> files s' = files s \<and> readonly s' = readonly s)"

subsection \<open>Expressions and their values\<close>

text \<open>
  The expressions of the grammar that are built from numbers, parentheses, the signs and
  the five operators, as trees: an expression is a term followed by summands, a term is a
  primary followed by factors. \<open>tokens_expr\<close> is the sequence of tokens of an expression.

  \<open>value_expr\<close> is the value by the usual rules, written without reference to the parser:
  a term is evaluated before it is added or subtracted, the factors of a term and the
  summands of an expression are applied to the value on their left, one after the other
  from left to right, and a division or remainder by a zero operand is the error
  \<open>divide by zero\<close>.

  \<open>need_expr\<close> bounds the depth of the calls that the parser makes on an expression.
  \<open>gets L ts s\<close> is the state after successive calls of \<open>get\<close> have returned exactly the
  tokens \<open>ts\<close> from \<open>s\<close>. \<open>agrees\<close> compares a result of the parser with a value: the
  same number and the given state, or the same error.
\<close>

datatype mulop = Times | Divide | Modulo
datatype addop = Add | Subtract

datatype 'v prim = Literal "'v" | Parens "'v expr" | Negate "'v prim" | Posit "'v prim"
and 'v factors = No_factor | Factor mulop "'v prim" "'v factors"
and 'v trm = Term "'v prim" "'v factors"
and 'v summands = No_summand | Summand addop "'v trm" "'v summands"
and 'v expr = Expr "'v trm" "'v summands"

definition mul_symbol :: "mulop \<Rightarrow> char" where
  "mul_symbol op = (case op of Times \<Rightarrow> CHR ''*'' | Divide \<Rightarrow> CHR ''/'' | Modulo \<Rightarrow> CHR ''%'')"

definition add_symbol :: "addop \<Rightarrow> char" where
  "add_symbol op = (case op of Add \<Rightarrow> CHR ''+'' | Subtract \<Rightarrow> CHR ''-'')"

primrec tokens_prim :: "'v double_ops \<Rightarrow> 'v prim \<Rightarrow> 'v Token list"
  and tokens_factors :: "'v double_ops \<Rightarrow> 'v factors \<Rightarrow> 'v Token list"
  and tokens_trm :: "'v double_ops \<Rightarrow> 'v trm \<Rightarrow> 'v Token list"
  and tokens_summands :: "'v double_ops \<Rightarrow> 'v summands \<Rightarrow> 'v Token list"
  and tokens_expr :: "'v double_ops \<Rightarrow> 'v expr \<Rightarrow> 'v Token list"
where
  "tokens_prim L (Literal v) = [Token_double v]"
| "tokens_prim L (Parens e) = Token_char L (CHR ''('') # tokens_expr L e @ [Token_char L (CHR '')'')]"
| "tokens_prim L (Negate p) = Token_char L (CHR ''-'') # tokens_prim L p"
| "tokens_prim L (Posit p) = Token_char L (CHR ''+'') # tokens_prim L p"
| "tokens_factors L No_factor = []"
| "tokens_factors L (Factor op p r) = Token_char L (mul_symbol op) # tokens_prim L p @ tokens_factors L r"
| "tokens_trm L (Term p r) = tokens_prim L p @ tokens_factors L r"
| "tokens_summands L No_summand = []"
| "tokens_summands L (Summand op t r) = Token_char L (add_symbol op) # tokens_trm L t @ tokens_summands L r"
| "tokens_expr L (Expr t r) = tokens_trm L t @ tokens_summands L r"

primrec value_prim :: "'v double_ops \<Rightarrow> 'v prim \<Rightarrow> error + 'v"
  and value_factors :: "'v double_ops \<Rightarrow> 'v factors \<Rightarrow> 'v \<Rightarrow> error + 'v"
  and value_trm :: "'v double_ops \<Rightarrow> 'v trm \<Rightarrow> error + 'v"
  and value_summands :: "'v double_ops \<Rightarrow> 'v summands \<Rightarrow> 'v \<Rightarrow> error + 'v"
  and value_expr :: "'v double_ops \<Rightarrow> 'v expr \<Rightarrow> error + 'v"
where
  "value_prim L (Literal v) = Inr v"
| "value_prim L (Parens e) = value_expr L e"
| "value_prim L (Negate p) = (case value_prim L p of Inl x \<Rightarrow> Inl x | Inr d \<Rightarrow> Inr (d_neg L d))"
| "value_prim L (Posit p) = value_prim L p"
| "value_factors L No_factor left = Inr left"
| "value_factors L (Factor op p r) left =
     (case value_prim L p of
        Inl x \<Rightarrow> Inl x
      | Inr d \<Rightarrow>
         (case op of
            Times \<Rightarrow> value_factors L r (d_mul L left d)
          | Divide \<Rightarrow>
              if d_is_zero L d then Inl (Runtime_error ''divide by zero'')
              else value_factors L r (d_div L left d)
          | Modulo \<Rightarrow>
              if d_is_zero L d then Inl (Runtime_error ''divide by zero'')
              else value_factors L r (d_fmod L left d)))"
| "value_trm L (Term p r) =
     (case value_prim L p of Inl x \<Rightarrow> Inl x | Inr a \<Rightarrow> value_factors L r a)"
| "value_summands L No_summand left = Inr left"
| "value_summands L (Summand op t r) left =
     (case value_trm L t of
        Inl x \<Rightarrow> Inl x
      | Inr d \<Rightarrow>
         (case op of
            Add \<Rightarrow> value_summands L r (d_add L left d)
          | Subtract \<Rightarrow> value_summands L r (d_sub L left d)))"
| "value_expr L (Expr t r) =
     (case value_trm L t of Inl x \<Rightarrow> Inl x | Inr a \<Rightarrow> value_summands L r a)"

primrec need_prim :: "'v prim \<Rightarrow> nat"
  and need_factors :: "'v factors \<Rightarrow> nat"
  and need_trm :: "'v trm \<Rightarrow> nat"
  and need_summands :: "'v summands \<Rightarrow> nat"
  and need_expr :: "'v expr \<Rightarrow> nat"
where
  "need_prim (Literal v) = 1"
| "need_prim (Parens e) = Suc (need_expr e)"
| "need_prim (Negate p) = Suc (need_prim p)"
| "need_prim (Posit p) = Suc (need_prim p)"
| "need_factors No_factor = 1"
| "need_factors (Factor op p r) = Suc (max (need_prim p) (need_factors r))"
| "need_trm (Term p r) = Suc (max (need_prim p) (need_factors r))"
| "need_summands No_summand = 1"
| "need_summands (Summand op t r) = Suc (max (need_trm t) (need_summands r))"
| "need_expr (Expr t r) = Suc (max (need_trm t) (need_summands r))"

primrec gets :: "'v double_ops \<Rightarrow> 'v Token list \<Rightarrow> 'v calc \<Rightarrow> 'v calc option" where
  "gets L [] s = Some s"
| "gets L (t # ts) s =
     (case get L s of
        Some (Inr t', s') \<Rightarrow> if t' = t then gets L ts s' else None
      | _ \<Rightarrow> None)"

declare gets.simps(2) [simp del]

definition agrees :: "('v, 'v) result \<Rightarrow> error + 'v \<Rightarrow> 'v calc \<Rightarrow> bool" where
  "agrees m v s_end = (case v of Inr x \<Rightarrow> m = Some (Inr x, s_end) | Inl e \<Rightarrow> (\<exists>s'. m = Some (Inl e, s')))"


definition is_mulop :: "'v Token \<Rightarrow> bool" where
  "is_mulop t = (is_symbol t (CHR ''*'') \<or> is_symbol t (CHR ''/'') \<or> is_symbol t (CHR ''%''))"

definition is_addop :: "'v Token \<Rightarrow> bool" where
  "is_addop t = (is_symbol t (CHR ''+'') \<or> is_symbol t (CHR ''-''))"

text \<open>A computation keeps the environment of \<open>s\<close> when every result it has does.\<close>

definition keeps :: "('v, 'a) result \<Rightarrow> 'v calc \<Rightarrow> bool" where
  "keeps m s = (\<forall>r s'. m = Some (r, s') \<longrightarrow> same_env s s')"

section \<open>Properties\<close>

subsection \<open>Running the model\<close>

lemma bind_simps:
  "bind None f = None"
  "bind (Some (Inl e, s)) f = Some (Inl e, s)"
  "bind (Some (Inr x, s)) f = f x s"
  by (simp_all add: bind_def)

lemma bind_weak_cong: "m = m' \<Longrightarrow> bind m f = bind m' f"
  by simp

lemma parser_fuel:
  "expression L (numeral k) s = expression L (Suc (pred_numeral k)) s"
  "expression_loop L (numeral k) left s = expression_loop L (Suc (pred_numeral k)) left s"
  "term' L (numeral k) s = term' L (Suc (pred_numeral k)) s"
  "term_loop L (numeral k) left s = term_loop L (Suc (pred_numeral k)) left s"
  "primary L (numeral k) s = primary L (Suc (pred_numeral k)) s"
  "function_name L (numeral k) s = function_name L (Suc (pred_numeral k)) s"
  by (simp_all only: numeral_eq_Suc)

lemmas parser_numeral =
  parser_fuel(1) [unfolded expression.simps]
  parser_fuel(2) [unfolded expression_loop.simps]
  parser_fuel(3) [unfolded term'.simps]
  parser_fuel(4) [unfolded term_loop.simps]
  parser_fuel(5) [unfolded primary.simps]
  parser_fuel(6) [unfolded function_name.simps]

lemmas run = get_def bind_simps return_def throw_def is_symbol_def is_function_def
  Token_id_def Token_char_def Token_double_def Token_string_def Token_function_def
  exact_def exact_read_def isspace_def isdigit_def isalpha_def unget_def start_def
  nat_of_digits_def digit_val_def get_word_def parser_numeral

lemma to_string_eval:
  "to_string (numeral k) =
     (if (numeral k :: nat) < 10 then [''0123456789'' ! numeral k]
      else to_string (numeral k div 10) @ [''0123456789'' ! (numeral k mod 10)])"
  "to_string 0 = ''0''"
  "to_string 1 = ''1''"
  "to_string (Suc 0) = ''1''"
  by (simp_all add: to_string.simps [of "numeral k"] to_string.simps [of 0] to_string.simps [of 1]
      to_string.simps [of "Suc 0"])



lemmas menu_run = menu.simps read_int_def nat_of_digits_def digit_val_def isdigit_def isspace_def

lemmas line_run = read_line_def read_word_def isspace_def exact_def exact_read_def read_int_def
  isdigit_def nat_of_digits_def digit_val_def

lemma skip_print_numeral:
  "skip_print L (numeral k) s =
     bind (get L s) (\<lambda>t s1. if kind t = print then skip_print L (pred_numeral k) s1 else return t s1)"
  by (simp add: numeral_eq_Suc)

lemmas turn_run = run calculate_turn_def skip_print_numeral statement_def assign_def
  constant_assign_def is_declared_def is_constant_def define_name_def

subsection \<open>What reading a token leaves unchanged\<close>

lemma same_env_refl: "same_env s s"
  by (simp add: same_env_def)

lemma same_env_trans: "same_env s s1 \<Longrightarrow> same_env s1 s2 \<Longrightarrow> same_env s s2"
  by (simp add: same_env_def)

lemma bind_same_env:
  assumes "bind m f = Some (r, s')"
    and "\<And>r1 s1. m = Some (r1, s1) \<Longrightarrow> same_env s s1"
    and "\<And>x s1. m = Some (Inr x, s1) \<Longrightarrow> f x s1 = Some (r, s') \<Longrightarrow> same_env s1 s'"
  shows "same_env s s'"
proof (cases m)
  case None
  with assms(1) show ?thesis by (simp add: bind_simps)
next
  case (Some p)
  obtain r1 s1 where p: "p = (r1, s1)" by (cases p)
  show ?thesis
  proof (cases r1)
    case (Inl e)
    with Some p assms(1) have "s' = s1" by (simp add: bind_simps)
    with assms(2) Some p show ?thesis by simp
  next
    case (Inr x)
    with Some p assms(1) have "f x s1 = Some (r, s')" by (simp add: bind_simps)
    with assms(2,3) Some p Inr show ?thesis by (blast intro: same_env_trans)
  qed
qed

lemma read_word_after_keyword_env:
  "read_word_after_keyword k s = Some (r, s') \<Longrightarrow> same_env s s'"
  by (auto simp: read_word_after_keyword_def throw_def return_def Let_def same_env_def
      split: if_splits list.splits)

lemma read_filename_env:
  "read_filename k s = Some (r, s') \<Longrightarrow> same_env s s'"
  by (auto simp: read_filename_def throw_def return_def same_env_def split: if_splits list.splits)

lemma return_env: "return x s1 = Some (r, s') \<Longrightarrow> same_env s1 s'"
  by (auto simp: return_def same_env_def)

lemma keyword_file_env:
  assumes "bind (read_word_after_keyword k s) (\<lambda>_ s1. bind (read_filename k s1) (\<lambda>f s2.
          return T (s2\<lparr>current_filename := f\<rparr>))) = Some (r, s')"
  shows "same_env s s'"
proof (rule bind_same_env [OF assms])
  show "same_env s s1" if "read_word_after_keyword k s = Some (r1, s1)" for r1 s1
    using that by (rule read_word_after_keyword_env)
next
  fix x s1
  assume "bind (read_filename k s1) (\<lambda>f s2. return T (s2\<lparr>current_filename := f\<rparr>)) = Some (r, s')"
  then show "same_env s1 s'"
  proof (rule bind_same_env)
    show "same_env s1 s2" if "read_filename k s1 = Some (r2, s2)" for r2 s2
      using that by (rule read_filename_env)
  next
    fix f s2
    assume "return T (s2\<lparr>current_filename := f\<rparr>) = Some (r, s')"
    then show "same_env s2 s'" by (auto simp: return_def same_env_def)
  qed
qed

lemma keyword_env:
  assumes "bind (read_word_after_keyword k s) (\<lambda>_. return T) = Some (r, s')"
  shows "same_env s s'"
proof (rule bind_same_env [OF assms])
  show "same_env s s1" if "read_word_after_keyword k s = Some (r1, s1)" for r1 s1
    using that by (rule read_word_after_keyword_env)
next
  fix x s1
  assume "return T s1 = Some (r, s')"
  then show "same_env s1 s'" by (rule return_env)
qed

lemma get_word_env:
  "get_word L w s = Some (r, s') \<Longrightarrow> same_env s s'"
  unfolding get_word_def
  by (simp split: if_splits add: Let_def;
      (erule keyword_env | erule keyword_file_env | auto simp: return_def throw_def same_env_def))

lemma if_Some_split:
  "(if c then a else b) = Some x \<Longrightarrow> (c \<and> a = Some x) \<or> (\<not> c \<and> b = Some x)"
  by (simp split: if_splits)

lemma get_env:
  assumes "get L s = Some (r, s')"
  shows "same_env s s'"
proof (cases "buffer s")
  case (Cons t b)
  with assms show ?thesis
    by (auto simp: get_def return_def same_env_def)
next
  case Nil
  note buf = Nil
  show ?thesis
  proof (cases "dropWhile isspace (cin s)")
    case Nil
    show ?thesis
      using buf Nil assms by (simp add: get_def split: if_splits del: dropWhile_eq_Nil_conv)
  next
    case (Cons ch rest)
    have e: "same_env s (s\<lparr>cin := c\<rparr>)" "same_env s (s\<lparr>cin := c, cin_fail := True\<rparr>)" for c
      by (simp_all add: same_env_def)
    let ?w = "get_word L (ch # takeWhile (\<lambda>c. isalpha c \<or> isdigit c) rest)
                  (s\<lparr>cin := dropWhile (\<lambda>c. isalpha c \<or> isdigit c) rest\<rparr>)"
    let ?d = "case d_read L (ch # rest) of
                   (Some v, rest') \<Rightarrow> return (Token_double v) (s\<lparr>cin := rest'\<rparr>)
                 | (None, rest') \<Rightarrow>
                     return (Token_double (d_zero L)) (s\<lparr>cin := rest', cin_fail := True\<rparr>)"
    have nf: "\<not> cin_fail s"
      using buf assms by (auto simp: get_def)
    from buf nf Cons assms
    have g: "(if ch \<in> set ''()+-*/%=,'' then return (Token_char L ch) (s\<lparr>cin := rest\<rparr>)
              else if ch = CHR '';'' then return (Token_id L print) (s\<lparr>cin := rest\<rparr>)
              else if ch = CHR ''.'' \<or> isdigit ch then ?d
              else if isalpha ch then ?w
              else throw ''Bad token'' (s\<lparr>cin := rest\<rparr>)) = Some (r, s')"
      by (simp add: get_def)
    then consider "return (Token_char L ch) (s\<lparr>cin := rest\<rparr>) = Some (r, s')"
      | "return (Token_id L print) (s\<lparr>cin := rest\<rparr>) = Some (r, s')"
      | "?d = Some (r, s')" | "?w = Some (r, s')"
      | "throw ''Bad token'' (s\<lparr>cin := rest\<rparr>) = Some (r, s')"
      by (meson if_Some_split)
    then show ?thesis
    proof cases
      case 1 then show ?thesis using e by (auto simp: return_def)
    next
      case 2 then show ?thesis using e by (auto simp: return_def)
    next
      case 3 then show ?thesis using e
        by (cases "d_read L (ch # rest)"; cases "fst (d_read L (ch # rest))") (auto simp: return_def)
    next
      case 4
      then have "same_env (s\<lparr>cin := dropWhile (\<lambda>c. isalpha c \<or> isdigit c) rest\<rparr>) s'"
        by (rule get_word_env)
      then show ?thesis by (simp add: same_env_def)
    next
      case 5 then show ?thesis using e by (auto simp: throw_def)
    qed
  qed
qed

subsection \<open>Push-back\<close>

text \<open>
  C3 (as amended). \<open>unget\<close> puts the token behind the tokens that are still pending.
  The \<open>get\<close> that follows returns the token when nothing is pending, and otherwise the
  oldest pending token, leaving the new token last in the buffer.
\<close>

theorem unget_then_get:
  "get L (unget t s) =
     (case buffer s of
        [] \<Rightarrow> Some (Inr t, s\<lparr>buffer := []\<rparr>)
      | t' # b \<Rightarrow> Some (Inr t', s\<lparr>buffer := b @ [t]\<rparr>))"
  by (simp add: get_def unget_def return_def split: list.splits)

text \<open>
  C3 as stated fails with a token pending: with \<open>+\<close> in the buffer, after \<open>unget\<close> of
  the number 1 the next \<open>get\<close> returns \<open>+\<close>.
\<close>

theorem unget_pending_counterexample:
  "get exact (unget (Token_double 1) ((start [] [])\<lparr>buffer := [Token_char exact (CHR ''+'')]\<rparr>))
     = Some (Inr (Token_char exact (CHR ''+'')), (start [] [])\<lparr>buffer := [Token_double 1]\<rparr>)
   \<and> Token_char exact (CHR ''+'') \<noteq> Token_double (1::real)"
  by (simp add: get_def unget_def return_def start_def Token_char_def Token_double_def)

subsection \<open>Assignment to a declared name\<close>

text \<open>
  C1 fails on the code. With \<open>x\<close> declared, not const, and equal to 3, the statement
  \<open>x = 5;\<close> stores 5 and then throws \<open>set: undefined name x\<close>: \<open>set_value\<close> reaches its
  final call of \<open>error\<close> after the store.
\<close>

theorem assign_declared_throws:
  "assign exact 8 (start ''x = 5;'' [(''x'', \<lparr>vname = ''x'', val = 3, is_const = False\<rparr>)])
     = Some (Inl (Runtime_error ''set: undefined name x''),
         (start [] [(''x'', \<lparr>vname = ''x'', val = 5, is_const = False\<rparr>)])\<lparr>buffer := [Token_id exact print]\<rparr>)"
  by (simp add: assign_def run is_constant_def is_declared_def set_value_def define_name_def
      cong: bind_weak_cong)

subsection \<open>Setting the precision\<close>

text \<open>
  C10 (as amended). \<open>set precision\<close> reads one token. A token that is not a number
  makes the command throw \<open>Expected a number after 'set precision'\<close>. For a number
  whose value, converted to \<open>int\<close>, is \<open>N\<close>: outside 0..20 the command throws
  \<open>Precision must be between 0 and 20\<close>, inside it sets \<open>current_precision\<close> to \<open>N\<close>.
  Where it throws, \<open>current_precision\<close> is what it was.
\<close>

theorem set_precision_range:
  assumes "get L s = Some (Inr t, s1)"
  shows "(kind t \<noteq> number \<longrightarrow>
            set_precision L s
              = Some (Inl (Runtime_error (''Expected a number after '' @ quoted ''set precision'')), s1))
       \<and> (kind t = number \<and> d_to_int L (tvalue t) = Some N \<longrightarrow>
            (if N < 0 \<or> 20 < N
             then set_precision L s
                    = Some (Inl (Runtime_error ''Precision must be between 0 and 20''), s1)
             else set_precision L s = Some (Inr (), s1\<lparr>current_precision := N\<rparr>)))
       \<and> current_precision s1 = current_precision s"
  using assms get_env [OF assms]
  by (simp add: set_precision_def bind_simps throw_def return_def same_env_def)

theorem set_precision_range_witness:
  "set_precision exact (start '' 25;'' [])
     = Some (Inl (Runtime_error ''Precision must be between 0 and 20''), start '';'' [])
   \<and> current_precision (start '';'' [] :: real calc) = current_precision (start '' 25;'' [] :: real calc)
   \<and> set_precision exact (start '' 4;'' []) = Some (Inr (), (start '';'' [])\<lparr>current_precision := 4\<rparr>)
   \<and> set_precision exact (start '' x;'' [])
     = Some (Inl (Runtime_error (''Expected a number after '' @ quoted ''set precision'')), start '';'' [])"
proof -
  have g1: "get exact (start '' 25;'' []) = Some (Inr (Token_double 25), start '';'' [])"
    by (simp add: run)
  have g2: "get exact (start '' 4;'' []) = Some (Inr (Token_double 4), start '';'' [])"
    by (simp add: run)
  have g3: "get exact (start '' x;'' []) = Some (Inr (Token_string exact ''x''), start '';'' [])"
    by (simp add: run)
  have k: "kind (Token_double (25::real)) = number" "kind (Token_double (4::real)) = number"
    "kind (Token_string exact ''x'') \<noteq> number"
    by (simp_all add: Token_double_def Token_string_def)
  have i1: "d_to_int exact (tvalue (Token_double (25::real))) = Some 25"
    by (simp add: exact_def Token_double_def exact_trunc_def)
  have i2: "d_to_int exact (tvalue (Token_double (4::real))) = Some 4"
    by (simp add: exact_def Token_double_def exact_trunc_def)
  show ?thesis
    using set_precision_range [OF g1, of 25] set_precision_range [OF g2, of 4]
      set_precision_range [OF g3, of 0] k i1 i2
    by simp
qed

text \<open>
  C10 as stated fails for a negative \<open>N\<close>: the lexer has no negative numbers, the
  \<open>-\<close> of \<open>set precision -1\<close> is a token of its own, and the command throws
  \<open>Expected a number after 'set precision'\<close>, not the error of the range.
\<close>

theorem set_precision_negative_counterexample:
  "set_precision exact (start '' -1;'' [])
     = Some (Inl (Runtime_error (''Expected a number after '' @ quoted ''set precision'')), start ''1;'' [])
   \<and> ''Expected a number after '' @ quoted ''set precision'' \<noteq> ''Precision must be between 0 and 20''"
  by (simp add: set_precision_def run quoted_def)

subsection \<open>The number of arguments of a function\<close>

text \<open>
  C5. \<open>pow(2,10)\<close> is 1024. A call of \<open>pow\<close> (the function token without a unary
  function) with one argument throws \<open>pow needs two arguments\<close>. A call of a unary
  function \<open>w\<close> with two arguments throws \<open>w needs only one argument\<close>. The arguments
  are any expressions that \<open>expression\<close> evaluates.
\<close>

theorem function_call_arity:
  "function_name exact 9 (start ''pow(2,10);'' []) = Some (Inr 1024, start '';'' [])
   \<and> (get L s = Some (Inr (Token_function L ''pow'' None), sa)
        \<and> get L sa = Some (Inr ta, sb) \<and> is_symbol ta (CHR ''('')
        \<and> expression L n sb = Some (Inr d, sc)
        \<and> get L sc = Some (Inr tb, sd) \<and> is_symbol tb (CHR '')'')
      \<longrightarrow> function_name L (Suc n) s = Some (Inl (Runtime_error ''pow needs two arguments''), sd))
   \<and> (get L s = Some (Inr (Token_function L w (Some f)), sa) \<and> w \<noteq> ''pow''
        \<and> get L sa = Some (Inr ta, sb) \<and> is_symbol ta (CHR ''('')
        \<and> expression L n sb = Some (Inr d, sc)
        \<and> get L sc = Some (Inr tb, sd) \<and> is_symbol tb (CHR '','')
        \<and> expression L n sd = Some (Inr dd, se)
        \<and> get L se = Some (Inr tc, sf) \<and> is_symbol tc (CHR '')'')
      \<longrightarrow> function_name L (Suc n) s = Some (Inl (Runtime_error (w @ '' needs only one argument'')), sf))"
proof (intro conjI impI)
  show "function_name exact 9 (start ''pow(2,10);'' []) = Some (Inr 1024, start '';'' [])"
    by (simp add: run cong: bind_weak_cong)
next
  assume "get L s = Some (Inr (Token_function L ''pow'' None), sa)
        \<and> get L sa = Some (Inr ta, sb) \<and> is_symbol ta (CHR ''('')
        \<and> expression L n sb = Some (Inr d, sc)
        \<and> get L sc = Some (Inr tb, sd) \<and> is_symbol tb (CHR '')'')"
  then show "function_name L (Suc n) s = Some (Inl (Runtime_error ''pow needs two arguments''), sd)"
    by (simp add: bind_simps is_function_def Token_function_def throw_def)
next
  assume "get L s = Some (Inr (Token_function L w (Some f)), sa) \<and> w \<noteq> ''pow''
        \<and> get L sa = Some (Inr ta, sb) \<and> is_symbol ta (CHR ''('')
        \<and> expression L n sb = Some (Inr d, sc)
        \<and> get L sc = Some (Inr tb, sd) \<and> is_symbol tb (CHR '','')
        \<and> expression L n sd = Some (Inr dd, se)
        \<and> get L se = Some (Inr tc, sf) \<and> is_symbol tc (CHR '')'')"
  then show "function_name L (Suc n) s = Some (Inl (Runtime_error (w @ '' needs only one argument'')), sf)"
    by (simp add: bind_simps is_function_def Token_function_def throw_def is_symbol_def)
qed

theorem function_call_arity_witness:
  "function_name exact 9 (start ''pow(2);'' []) = Some (Inl (Runtime_error ''pow needs two arguments''), start '';'' [])
   \<and> function_name exact 9 (start ''sin(0,1);'' []) = Some (Inl (Runtime_error ''sin needs only one argument''), start '';'' [])"
proof -
  let ?b = "\<lambda>c t. (start c [])\<lparr>buffer := [t]\<rparr> :: real calc"
  let ?open = "Token_char exact (CHR ''('')"
  let ?close = "Token_char exact (CHR '')'')"
  let ?comma = "Token_char exact (CHR '','')"
  have sym: "is_symbol ?open (CHR ''('')" "is_symbol ?close (CHR '')'')" "is_symbol ?comma (CHR '','')"
    by (simp_all add: is_symbol_def Token_char_def)
  have p: "get exact (start ''pow(2);'' []) = Some (Inr (Token_function exact ''pow'' None), start ''(2);'' [])"
    "get exact (start ''(2);'' []) = Some (Inr ?open, start ''2);'' [])"
    "expression exact 8 (start ''2);'' []) = Some (Inr 2, ?b '';'' ?close)"
    "get exact (?b '';'' ?close) = Some (Inr ?close, start '';'' [])"
    by (simp_all add: run cong: bind_weak_cong)
  have q: "get exact (start ''sin(0,1);'' []) = Some (Inr (Token_function exact ''sin'' (Some Sin)), start ''(0,1);'' [])"
    "get exact (start ''(0,1);'' []) = Some (Inr ?open, start ''0,1);'' [])"
    "expression exact 8 (start ''0,1);'' []) = Some (Inr 0, ?b ''1);'' ?comma)"
    "get exact (?b ''1);'' ?comma) = Some (Inr ?comma, start ''1);'' [])"
    "expression exact 8 (start ''1);'' []) = Some (Inr 1, ?b '';'' ?close)"
    by (simp_all add: run cong: bind_weak_cong)
  have n: "(9::nat) = Suc 8" by simp
  have "function_name exact 9 (start ''pow(2);'' [])
      = Some (Inl (Runtime_error ''pow needs two arguments''), start '';'' [])"
    using function_call_arity [where L = exact and s = "start ''pow(2);'' []" and sa = "start ''(2);'' []"
        and ta = ?open and sb = "start ''2);'' []" and n = 8 and d = 2 and sc = "?b '';'' ?close"
        and tb = ?close and sd = "start '';'' []"] p sym
    unfolding n by simp
  moreover have "function_name exact 9 (start ''sin(0,1);'' [])
      = Some (Inl (Runtime_error ''sin needs only one argument''), start '';'' [])"
    using function_call_arity [where L = exact and s = "start ''sin(0,1);'' []" and w = "''sin''" and f = Sin
        and sa = "start ''(0,1);'' []"
        and ta = ?open and sb = "start ''0,1);'' []" and n = 8 and d = 0 and sc = "?b ''1);'' ?comma"
        and tb = ?comma and sd = "start ''1);'' []" and dd = 1 and se = "?b '';'' ?close"
        and tc = ?close and sf = "start '';'' []"] q p(4) sym
    unfolding n by simp
  ultimately show ?thesis by simp
qed

subsection \<open>Division and modulo by zero\<close>

text \<open>
  C6. In \<open>term\<close>, with a left operand \<open>a\<close>, an operator \<open>/\<close> or \<open>%\<close> and a right
  operand \<open>d\<close>: when \<open>d == 0\<close> the call throws \<open>divide by zero\<close>, whatever \<open>a\<close> is;
  otherwise nothing is thrown for this operator and the loop goes on with the quotient or the
  remainder.
\<close>

theorem division_by_zero:
  assumes "primary L (Suc n) s = Some (Inr a, s1)"
    and "get L s1 = Some (Inr t, s2)"
    and "is_symbol t (CHR ''/'') \<or> is_symbol t (CHR ''%'')"
    and "primary L n s2 = Some (Inr d, s3)"
  shows "term' L (Suc (Suc n)) s =
     (if d_is_zero L d then Some (Inl (Runtime_error ''divide by zero''), s3)
      else term_loop L n (if is_symbol t (CHR ''/'') then d_div L a d else d_fmod L a d) s3)"
  using assms by (auto simp: bind_simps throw_def is_symbol_def)


theorem division_by_zero_witness:
  "term' exact 9 (start ''5 / 0;'' []) = Some (Inl (Runtime_error ''divide by zero''), start '';'' [])
   \<and> term' exact 9 (start ''0 / 5;'' []) = Some (Inr 0, (start [] [])\<lparr>buffer := [Token_id exact print]\<rparr>)
   \<and> term' exact 9 (start ''5 % 0;'' []) = Some (Inl (Runtime_error ''divide by zero''), start '';'' [])"
proof -
  let ?div = "Token_char exact (CHR ''/'')"
  let ?mod = "Token_char exact (CHR ''%'')"
  have n: "(9::nat) = Suc (Suc 7)" "(8::nat) = Suc 7" by simp_all
  have sym: "is_symbol ?div (CHR ''/'')" "is_symbol ?mod (CHR ''%'')" "\<not> is_symbol ?mod (CHR ''/'')"
    by (simp_all add: is_symbol_def Token_char_def)
  have z: "d_is_zero exact 0" "\<not> d_is_zero exact 5" "d_div exact 0 5 = 0"
    by (simp_all add: exact_def)
  have a: "primary exact 8 (start ''5 / 0;'' []) = Some (Inr 5, start '' / 0;'' [])"
    "get exact (start '' / 0;'' []) = Some (Inr ?div, start '' 0;'' [])"
    "primary exact 7 (start '' 0;'' []) = Some (Inr 0, start '';'' [])"
    by (simp_all add: run cong: bind_weak_cong)
  have b: "primary exact 8 (start ''0 / 5;'' []) = Some (Inr 0, start '' / 5;'' [])"
    "get exact (start '' / 5;'' []) = Some (Inr ?div, start '' 5;'' [])"
    "primary exact 7 (start '' 5;'' []) = Some (Inr 5, start '';'' [])"
    "term_loop exact 7 0 (start '';'' []) = Some (Inr 0, (start [] [])\<lparr>buffer := [Token_id exact print]\<rparr>)"
    by (simp_all add: run cong: bind_weak_cong)
  have c: "primary exact 8 (start ''5 % 0;'' []) = Some (Inr 5, start '' % 0;'' [])"
    "get exact (start '' % 0;'' []) = Some (Inr ?mod, start '' 0;'' [])"
    by (simp_all add: run cong: bind_weak_cong)
  show ?thesis
    using division_by_zero [of exact 7 "start ''5 / 0;'' []" 5 "start '' / 0;'' []" ?div "start '' 0;'' []" 0 "start '';'' []"]
      division_by_zero [of exact 7 "start ''0 / 5;'' []" 0 "start '' / 5;'' []" ?div "start '' 5;'' []" 5 "start '';'' []"]
      division_by_zero [of exact 7 "start ''5 % 0;'' []" 5 "start '' % 0;'' []" ?mod "start '' 0;'' []" 0 "start '';'' []"]
      a b c sym z
    unfolding n by simp
qed

subsection \<open>The table of names as a map\<close>

text \<open>
  \<open>names_put\<close> is the update of a map, and it keeps the keys in increasing order: the
  order of the list is the order in which \<open>std::map\<close> is iterated.
\<close>

lemma map_of_names_put: "map_of (names_put k v m) = (map_of m)(k \<mapsto> v)"
  by (induction m) (auto simp: fun_eq_iff)

lemma names_put_keys: "fst ` set (names_put k v m) = insert k (fst ` set m)"
  by (induction k v m rule: names_put.induct) force+

lemma names_put_sorted:
  "sorted_wrt (<) (map fst m) \<Longrightarrow> sorted_wrt (<) (map fst (names_put k v m))"
proof (induction m)
  case Nil
  then show ?case by simp
next
  case (Cons e m)
  obtain k' w where e: "e = (k', w)" by (cases e)
  show ?case
  proof (cases "k < k'")
    case True
    with Cons.prems e show ?thesis by (auto intro: less_trans)
  next
    case False
    show ?thesis
    proof (cases "k = k'")
      case True
      with Cons.prems e show ?thesis by simp
    next
      case ne: False
      with False have "k' < k" by simp
      with Cons e False ne show ?thesis
        using names_put_keys [of k v m] by auto
    qed
  qed
qed

subsection \<open>The saved file\<close>









subsection \<open>Conflicts while loading\<close>

text \<open>
  The renaming loop returns the first candidate that is not declared, and there is one.
\<close>

lemma rename_loop_from:
  assumes "\<not> is_declared s (candidate nm k)"
  shows "i \<le> k \<Longrightarrow> (\<forall>j. i \<le> j \<and> j < k \<longrightarrow> is_declared s (candidate nm j))
    \<Longrightarrow> rename_loop s nm i = candidate nm k"
proof (induction "k - i" arbitrary: i)
  case 0
  then have "i = k" by simp
  with assms show ?case
    by (simp add: rename_loop.simps [of s nm k] candidate_def)
next
  case (Suc d)
  then have "i < k" by simp
  with Suc.prems have "is_declared s (candidate nm i)" by simp
  then have "rename_loop s nm i = rename_loop s nm (i + 1)"
    by (simp add: rename_loop.simps [of s nm i] candidate_def)
  moreover have "rename_loop s nm (i + 1) = candidate nm k"
    using Suc.hyps(1) [of "i + 1"] Suc.hyps(2) Suc.prems \<open>i < k\<close> by simp
  ultimately show ?case by simp
qed

lemma rename_loop_least:
  "\<forall>j<k. is_declared s (candidate nm j) \<Longrightarrow> \<not> is_declared s (candidate nm k)
     \<Longrightarrow> rename_loop s nm 0 = candidate nm k"
  using rename_loop_from [of s nm k 0] by simp

lemma ex_least_undeclared:
  "\<exists>k. (\<forall>j<k. is_declared s (candidate nm j)) \<and> \<not> is_declared s (candidate nm k)"
proof -
  have "{j. is_declared s (candidate nm j)} \<noteq> UNIV"
    using finite_declared_candidates [of s nm] infinite_UNIV_nat by metis
  then obtain k0 where "\<not> is_declared s (candidate nm k0)" by auto
  then have "\<not> is_declared s (candidate nm (LEAST k. \<not> is_declared s (candidate nm k)))"
    by (rule LeastI)
  moreover have "\<forall>j<(LEAST k. \<not> is_declared s (candidate nm k)). is_declared s (candidate nm j)"
    using not_less_Least by blast
  ultimately show ?thesis by blast
qed

text \<open>
  C4. A line of the file that reads as an entry for a declared name \<open>nm\<close>, with the
  option chosen at the menu. Option 1 leaves \<open>names\<close> as it is. Option 2 replaces the
  entry of \<open>nm\<close> by the value and the constness of the file. Option 3 leaves the entry
  of \<open>nm\<close> (and every other entry) as it is and defines the value of the file under
  the first of \<open>nm_file\<close>, \<open>nm_file1\<close>, \<open>nm_file2\<close>, ... that is not declared.
\<close>

theorem load_conflict_resolution:
  assumes "read_line L line = Entry nm v c"
    and "is_declared s nm"
    and "menu [1, 2, 3] (cin s) = Some (option, cin')"
  shows "\<exists>s'. load_lines L [line] s = Some (Inr (), s')
     \<and> (option = 1 \<longrightarrow> names s' = names s)
     \<and> (option = 2 \<longrightarrow>
          map_of (names s') = (map_of (names s))(nm \<mapsto> \<lparr>vname = nm, val = v, is_const = (c \<noteq> 0)\<rparr>))
     \<and> (option \<noteq> 1 \<and> option \<noteq> 2 \<longrightarrow>
          (\<exists>k. (\<forall>j<k. is_declared s (candidate nm j)) \<and> \<not> is_declared s (candidate nm k)
             \<and> map_of (names s') nm = map_of (names s) nm
             \<and> map_of (names s') =
                 (map_of (names s))(candidate nm k \<mapsto>
                    \<lparr>vname = candidate nm k, val = v, is_const = (c \<noteq> 0)\<rparr>)))"
proof -
  let ?s1 = "s\<lparr>cin := cin', cin_fail := False\<rparr>"
  have d: "is_declared ?s1 x = is_declared s x" for x
    by (simp add: is_declared_def)
  obtain k where k: "\<forall>j<k. is_declared s (candidate nm j)" "\<not> is_declared s (candidate nm k)"
    using ex_least_undeclared by blast
  then have r: "rename_loop ?s1 nm 0 = candidate nm k"
    using rename_loop_least [of k ?s1 nm] d by simp
  have ne: "candidate nm k \<noteq> nm"
    using k(2) assms(2) by auto
  show ?thesis
  proof (cases "option = 1")
    case True
    with assms show ?thesis by (simp add: return_def)
  next
    case n1: False
    show ?thesis
    proof (cases "option = 2")
      case True
      with assms n1 show ?thesis by (simp add: return_def map_of_names_put)
    next
      case False
      with assms n1 r k ne show ?thesis
        by (auto simp: return_def define_name_def map_of_names_put)
    qed
  qed
qed

theorem load_conflict_resolution_witness:
  "\<exists>s'. load_lines exact [''x = 5 is_const = 0'']
           (start '';\<newline>3\<newline>'' [(''x'', \<lparr>vname = ''x'', val = 3, is_const = False\<rparr>),
                          (''x_file'', \<lparr>vname = ''x_file'', val = 9, is_const = False\<rparr>)])
         = Some (Inr (), s')
     \<and> map_of (names s') ''x'' = Some \<lparr>vname = ''x'', val = 3, is_const = False\<rparr>
     \<and> map_of (names s') ''x_file1'' = Some \<lparr>vname = ''x_file1'', val = 5, is_const = False\<rparr>"
proof -
  let ?s = "start '';\<newline>3\<newline>'' [(''x'', \<lparr>vname = ''x'', val = 3::real, is_const = False\<rparr>),
                          (''x_file'', \<lparr>vname = ''x_file'', val = 9, is_const = False\<rparr>)]"
  have 1: "read_line exact ''x = 5 is_const = 0'' = Entry ''x'' 5 0"
    by (simp add: line_run)
  have 2: "is_declared ?s ''x''"
    by (simp add: is_declared_def start_def)
  have 3: "menu [1, 2, 3] (cin ?s) = Some (3, ''\<newline>'')"
    by (simp add: start_def menu_run)
  have c: "candidate ''x'' 0 = ''x_file''" "candidate ''x'' 1 = ''x_file1''"
    "candidate ''x'' (Suc 0) = ''x_file1''"
    by (simp_all add: candidate_def to_string_eval)
  have d: "is_declared ?s (candidate ''x'' 0)" "\<not> is_declared ?s (candidate ''x'' 1)"
    by (simp_all add: c is_declared_def start_def)
  have k1: "k = 1" if "\<forall>j<k. is_declared ?s (candidate ''x'' j)" "\<not> is_declared ?s (candidate ''x'' k)" for k
  proof -
    have "k \<noteq> 0"
    proof
      assume "k = 0"
      with that(2) d(1) show False by simp
    qed
    moreover have "\<not> 1 < k"
    proof
      assume "1 < k"
      with that(1) have "is_declared ?s (candidate ''x'' 1)" by blast
      with d(2) show False by simp
    qed
    ultimately show ?thesis by simp
  qed
  from load_conflict_resolution [OF 1 2 3]
  obtain s' k where s': "load_lines exact [''x = 5 is_const = 0''] ?s = Some (Inr (), s')"
    and k: "\<forall>j<k. is_declared ?s (candidate ''x'' j)" "\<not> is_declared ?s (candidate ''x'' k)"
    and m: "map_of (names s') ''x'' = map_of (names ?s) ''x''"
      "map_of (names s') = (map_of (names ?s))(candidate ''x'' k \<mapsto>
          \<lparr>vname = candidate ''x'' k, val = 5, is_const = ((0::int) \<noteq> 0)\<rparr>)"
    by auto
  from k have "k = 1" by (rule k1)
  with m c have "map_of (names s') ''x_file1'' = Some \<lparr>vname = ''x_file1'', val = 5, is_const = False\<rparr>"
    by simp
  moreover from m(1) have "map_of (names s') ''x'' = Some \<lparr>vname = ''x'', val = 3, is_const = False\<rparr>"
    by (simp add: start_def)
  ultimately show ?thesis using s' by blast
qed

subsection \<open>Lines that are skipped while loading\<close>

text \<open>
  C2 (as amended). A line of blanks only is skipped: the loop goes on with the lines
  that follow, in the same state.
\<close>

theorem load_blank_line_skipped:
  assumes "\<forall>ch\<in>set line. isspace ch"
  shows "load_lines L (line # lines) s = load_lines L lines s"
proof -
  from assms have "dropWhile isspace line = []" by simp
  then have "read_line L line = No_name"
    by (simp add: read_line_def read_word_def del: dropWhile_eq_Nil_conv)
  then show ?thesis by simp
qed

theorem load_blank_line_skipped_witness:
  "load_lines exact [''   '', ''y = 5 is_const = 0''] (start [] [])
     = Some (Inr (), (start [] [])\<lparr>names := [(''y'', \<lparr>vname = ''y'', val = 5, is_const = False\<rparr>)]\<rparr>)"
proof -
  have b: "\<forall>ch\<in>set ''   ''. isspace ch" by (simp add: isspace_def)
  have "load_lines exact [''y = 5 is_const = 0''] (start [] [])
       = Some (Inr (), (start [] [])\<lparr>names := [(''y'', \<lparr>vname = ''y'', val = 5, is_const = False\<rparr>)]\<rparr>)"
    by (simp add: line_run is_declared_def start_def define_name_def return_def)
  with load_blank_line_skipped [OF b, of exact "[''y = 5 is_const = 0'']" "start [] []"]
  show ?thesis by simp
qed

text \<open>
  C2 as stated fails: the line \<open>y : 5 const : 1\<close> has neither \<open>=\<close> nor
  \<open>is_const\<close>, and it defines the constant \<open>y\<close> with value 5. The words at the places
  of \<open>=\<close> and \<open>is_const\<close> are read and never compared.
\<close>

theorem load_malformed_line_counterexample:
  "load_lines exact [''y : 5 const : 1''] (start [] [])
     = Some (Inr (), (start [] [])\<lparr>names := [(''y'', \<lparr>vname = ''y'', val = 5, is_const = True\<rparr>)]\<rparr>)"
  by (simp add: line_run is_declared_def start_def define_name_def return_def)

subsection \<open>Constants keep their value\<close>

text \<open>The parser changes nothing but the token stream and the input.\<close>

lemma keeps_None: "keeps None s"
  by (simp add: keeps_def)

lemma keeps_return: "same_env s s1 \<Longrightarrow> keeps (return x s1) s"
  by (simp add: keeps_def return_def)

lemma keeps_throw: "same_env s s1 \<Longrightarrow> keeps (throw msg s1) s"
  by (simp add: keeps_def throw_def)

lemma keeps_get: "keeps (get L s) s"
  using get_env by (auto simp: keeps_def)

lemma keeps_get_from: "same_env s s1 \<Longrightarrow> keeps (get L s1) s"
  unfolding keeps_def by (blast intro: same_env_trans get_env)

lemma keeps_option:
  "keeps a s \<Longrightarrow> (\<And>y. keeps (b y) s) \<Longrightarrow> keeps (case x of None \<Rightarrow> a | Some y \<Rightarrow> b y) s"
  by (simp split: option.split)

lemma keeps_if: "keeps a s \<Longrightarrow> keeps b s \<Longrightarrow> keeps (if c then a else b) s"
  by simp

lemma keeps_bind:
  assumes "keeps m s" and "\<And>x s1. same_env s s1 \<Longrightarrow> keeps (f x s1) s"
  shows "keeps (bind m f) s"
  unfolding keeps_def
proof (intro allI impI)
  fix r s'
  assume b: "bind m f = Some (r, s')"
  show "same_env s s'"
  proof (cases m)
    case None
    with b show ?thesis by (simp add: bind_simps)
  next
    case (Some p)
    obtain r1 s1 where p: "p = (r1, s1)" by (cases p)
    with Some assms(1) have e: "same_env s s1" by (simp add: keeps_def)
    show ?thesis
    proof (cases r1)
      case (Inl x)
      with Some p b e show ?thesis by (simp add: bind_simps)
    next
      case (Inr x)
      with Some p b have "f x s1 = Some (r, s')" by (simp add: bind_simps)
      with assms(2) [OF e, of x] show ?thesis by (simp add: keeps_def)
    qed
  qed
qed

lemma keeps_same: "same_env s s1 \<Longrightarrow> keeps m s1 \<Longrightarrow> keeps m s"
  by (auto simp: keeps_def intro: same_env_trans)

lemma same_env_unget: "same_env s s1 \<Longrightarrow> same_env s (unget t s1)"
  by (simp add: same_env_def unget_def)

lemma get_value_keeps: "same_env s s1 \<Longrightarrow> keeps (get_value n s1) s"
  by (simp add: get_value_def keeps_return keeps_throw split: option.splits)

lemma parser_keeps:
  "(\<forall>s. keeps (function_name L n s) s) \<and> (\<forall>s. keeps (primary L n s) s)
   \<and> (\<forall>s. keeps (term' L n s) s) \<and> (\<forall>left s. keeps (term_loop L n left s) s)
   \<and> (\<forall>s. keeps (expression L n s) s) \<and> (\<forall>left s. keeps (expression_loop L n left s) s)"
proof (induction n)
  case 0
  show ?case by (simp add: keeps_None)
next
  case (Suc n)
  then have ih: "\<And>s0 s. same_env s0 s \<Longrightarrow> keeps (function_name L n s) s0"
    "\<And>s0 s. same_env s0 s \<Longrightarrow> keeps (primary L n s) s0"
    "\<And>s0 s. same_env s0 s \<Longrightarrow> keeps (term' L n s) s0"
    "\<And>s0 s left. same_env s0 s \<Longrightarrow> keeps (term_loop L n left s) s0"
    "\<And>s0 s. same_env s0 s \<Longrightarrow> keeps (expression L n s) s0"
    "\<And>s0 s left. same_env s0 s \<Longrightarrow> keeps (expression_loop L n left s) s0"
    by (blast intro: keeps_same)+
  note intros = keeps_bind keeps_get keeps_get_from keeps_if keeps_option keeps_return
    keeps_throw ih same_env_unget get_value_keeps
  have 1: "keeps (function_name L (Suc n) s) s" for s
    by simp (intro intros | assumption)+
  have 2: "keeps (primary L (Suc n) s) s" for s
    by simp (intro intros | assumption)+
  have 3: "keeps (term' L (Suc n) s) s" for s
    by simp (intro intros same_env_refl | assumption)+
  have 4: "keeps (term_loop L (Suc n) left s) s" for left s
    by simp (intro intros | assumption)+
  have 5: "keeps (expression L (Suc n) s) s" for s
    by simp (intro intros same_env_refl | assumption)+
  have 6: "keeps (expression_loop L (Suc n) left s) s" for left s
    by simp (intro intros | assumption)+
  from 1 2 3 4 5 6 show ?case by blast
qed

lemma expression_env: "expression L n s = Some (r, s') \<Longrightarrow> same_env s s'"
  using parser_keeps [of L n] by (simp add: keeps_def)


lemma skip_print_env: "skip_print L n s = Some (r, s') \<Longrightarrow> same_env s s'"
proof -
  have "keeps (skip_print L n s1) s" if "same_env s s1" for s s1
    using that
  proof (induction n arbitrary: s1)
    case 0
    show ?case by (simp add: keeps_None)
  next
    case (Suc n)
    then show ?case
      by simp (intro keeps_bind keeps_get_from keeps_if keeps_return | assumption)+
  qed
  from this [OF same_env_refl] show "skip_print L n s = Some (r, s') \<Longrightarrow> same_env s s'"
    by (simp add: keeps_def)
qed

lemma bindE:
  assumes "bind m f = Some (r, s')"
  obtains (throws) e where "m = Some (Inl e, s')" and "r = Inl e"
    | (returns) x s1 where "m = Some (Inr x, s1)" and "f x s1 = Some (r, s')"
  using assms by (auto simp: bind_def split: option.splits sum.splits prod.splits)

lemma map_of_names_put_other: "k \<noteq> x \<Longrightarrow> map_of (names_put k v m) x = map_of m x"
  by (simp add: map_of_names_put)

lemma assign_const_kept:
  assumes "assign L n s = Some (r, s')" and "map_of (names s) x = Some v" and "is_const v"
  shows "map_of (names s') x = Some v"
  using assms(1) unfolding assign_def
proof (cases rule: bindE)
  case (throws e)
  with assms(2) get_env show ?thesis by (fastforce simp: same_env_def)
next
  case (returns t s1)
  from returns(1) have n1: "names s1 = names s" using get_env by (fastforce simp: same_env_def)
  show ?thesis
  proof (cases "kind t \<noteq> name_token \<or> is_constant s1 (tname t)")
    case True
    with returns(2) n1 assms(2) show ?thesis by (auto simp: throw_def split: if_splits)
  next
    case False
    with returns(2) have "bind (get L s1) (\<lambda>t' s2.
         if \<not> is_symbol t' (CHR ''='') then throw (''= missing in assign of '' @ tname t) s2
         else bind (expression L n s2) (\<lambda>d s3.
           if is_declared s3 (tname t)
           then bind (set_value (tname t) d s3) (\<lambda>_. return d)
           else return d (define_name (tname t) d False s3))) = Some (r, s')"
      by simp
    then show ?thesis
    proof (cases rule: bindE)
      case (throws e)
      with n1 assms(2) get_env show ?thesis by (fastforce simp: same_env_def)
    next
      case (returns t' s2)
      from returns(1) have n2: "names s2 = names s" using n1 get_env by (fastforce simp: same_env_def)
      show ?thesis
      proof (cases "is_symbol t' (CHR ''='')")
        case False
        with returns(2) n2 assms(2) show ?thesis by (simp add: throw_def)
      next
        case True
        with returns(2) have "bind (expression L n s2) (\<lambda>d s3.
           if is_declared s3 (tname t)
           then bind (set_value (tname t) d s3) (\<lambda>_. return d)
           else return d (define_name (tname t) d False s3)) = Some (r, s')"
          by simp
        then show ?thesis
        proof (cases rule: bindE)
          case (throws e)
          with n2 assms(2) expression_env show ?thesis by (fastforce simp: same_env_def)
        next
          case (returns d s3)
          from returns(1) have n3: "names s3 = names s"
            using n2 expression_env by (fastforce simp: same_env_def)
          show ?thesis
          proof (cases "tname t = x")
            case True
            with n3 assms(2,3) returns(2) show ?thesis
              by (simp add: is_declared_def set_value_def throw_def bind_simps)
          next
            case False
            with n3 assms(2) returns(2) show ?thesis
              by (auto simp: is_declared_def set_value_def throw_def return_def bind_simps
                  define_name_def map_of_names_put split: if_splits option.splits)
          qed
        qed
      qed
    qed
  qed
qed


lemma constant_assign_const_kept:
  assumes "constant_assign L n s = Some (r, s')" and "map_of (names s) x = Some v"
  shows "map_of (names s') x = Some v"
  using assms(1) unfolding constant_assign_def
proof (cases rule: bindE)
  case (throws e)
  with assms(2) get_env show ?thesis by (fastforce simp: same_env_def)
next
  case (returns t s1)
  from returns(1) have n1: "names s1 = names s" using get_env by (fastforce simp: same_env_def)
  show ?thesis
  proof (cases "kind t \<noteq> name_token \<or> is_declared s1 (tname t)")
    case True
    with returns(2) n1 assms(2) show ?thesis by (auto simp: throw_def split: if_splits)
  next
    case False
    then have ne: "tname t \<noteq> x"
      using n1 assms(2) by (auto simp: is_declared_def)
    from False returns(2) have "bind (get L s1) (\<lambda>t' s2.
         if \<not> is_symbol t' (CHR ''='') then throw (''= missing in assign of '' @ tname t) s2
         else bind (expression L n s2) (\<lambda>d s3.
           return d (define_name (tname t) d True s3))) = Some (r, s')"
      by simp
    then show ?thesis
    proof (cases rule: bindE)
      case (throws e)
      with n1 assms(2) get_env show ?thesis by (fastforce simp: same_env_def)
    next
      case (returns t' s2)
      from returns(1) have n2: "names s2 = names s" using n1 get_env by (fastforce simp: same_env_def)
      show ?thesis
      proof (cases "is_symbol t' (CHR ''='')")
        case False
        with returns(2) n2 assms(2) show ?thesis by (simp add: throw_def)
      next
        case True
        with returns(2) have "bind (expression L n s2) (\<lambda>d s3.
           return d (define_name (tname t) d True s3)) = Some (r, s')"
          by simp
        then show ?thesis
        proof (cases rule: bindE)
          case (throws e)
          with n2 assms(2) expression_env show ?thesis by (fastforce simp: same_env_def)
        next
          case (returns d s3)
          from returns(1) have n3: "names s3 = names s"
            using n2 expression_env by (fastforce simp: same_env_def)
          with ne assms(2) returns(2) show ?thesis
            by (auto simp: return_def define_name_def map_of_names_put)
        qed
      qed
    qed
  qed
qed

lemma statement_const_kept:
  assumes "statement L n s = Some (r, s')" and "map_of (names s) x = Some v" and "is_const v"
  shows "map_of (names s') x = Some v"
  using assms(1) unfolding statement_def
proof (cases rule: bindE)
  case (throws e)
  with assms(2) get_env show ?thesis by (fastforce simp: same_env_def)
next
  case (returns t s1)
  from returns(1) have n1: "names s1 = names s" using get_env by (fastforce simp: same_env_def)
  consider (c) "kind t = const_token" | (n) "kind t \<noteq> const_token" "kind t = name_token"
    | (e) "kind t \<noteq> const_token" "kind t \<noteq> name_token" by blast
  then show ?thesis
  proof cases
    case c
    with returns(2) have "constant_assign L n s1 = Some (r, s')" by simp
    then show ?thesis using n1 assms(2) by (simp add: constant_assign_const_kept)
  next
    case e
    with returns(2) have "expression L n (unget t s1) = Some (r, s')" by simp
    then have "names s' = names (unget t s1)" using expression_env by (fastforce simp: same_env_def)
    with n1 assms(2) show ?thesis by (simp add: unget_def)
  next
    case n
    with returns(2) have "bind (get L s1) (\<lambda>tt s2.
           if is_symbol tt (CHR ''='') then assign L n (unget tt (unget t s2))
           else expression L n (unget tt (unget t s2))) = Some (r, s')"
      by simp
    then show ?thesis
    proof (cases rule: bindE)
      case (throws e)
      with n1 assms(2) get_env show ?thesis by (fastforce simp: same_env_def)
    next
      case (returns tt s2)
      from returns(1) have n2: "names (unget tt (unget t s2)) = names s"
        using n1 get_env by (fastforce simp: same_env_def unget_def)
      show ?thesis
      proof (cases "is_symbol tt (CHR ''='')")
        case True
        with returns(2) have "assign L n (unget tt (unget t s2)) = Some (r, s')" by simp
        then show ?thesis using n2 assms(2,3) by (simp add: assign_const_kept)
      next
        case False
        with returns(2) have "expression L n (unget tt (unget t s2)) = Some (r, s')" by simp
        then have "names s' = names (unget tt (unget t s2))"
          using expression_env by (fastforce simp: same_env_def)
        with n2 assms(2) show ?thesis by simp
      qed
    qed
  qed
qed

lemma set_precision_names:
  assumes "set_precision L s = Some (r, s')"
  shows "names s' = names s"
  using assms unfolding set_precision_def
proof (cases rule: bindE)
  case (throws e)
  then show ?thesis using get_env by (fastforce simp: same_env_def)
next
  case (returns t s1)
  then show ?thesis using get_env [of L s "Inr t" s1]
    by (auto simp: same_env_def throw_def return_def split: if_splits option.splits)
qed

lemma show_env_names: "show_env s = Some (r, s') \<Longrightarrow> names s' = names s"
  by (auto simp: show_env_def throw_def return_def split: if_splits)

lemma save_env_names: "save_env L s = Some (r, s') \<Longrightarrow> names s' = names s"
  by (auto simp: save_env_def throw_def return_def Let_def split: if_splits option.splits prod.splits)

lemma rename_loop_undeclared: "\<not> is_declared s (rename_loop s nm 0)"
  using ex_least_undeclared [of s nm] rename_loop_least [of _ s nm] by auto

lemma load_lines_kept:
  "load_lines L lines s = Some (r, s') \<Longrightarrow> map_of (names s) x = Some v
     \<Longrightarrow> \<not> overwritten L lines s x \<Longrightarrow> map_of (names s') x = Some v"
proof (induction lines arbitrary: s)
  case Nil
  then show ?case by (simp add: return_def)
next
  case (Cons line lines)
  show ?case
  proof (cases "read_line L line")
    case No_name
    with Cons show ?thesis by simp
  next
    case Unwritten
    with Cons.prems show ?thesis by simp
  next
    case (Entry nm val c_int)
    show ?thesis
    proof (cases "is_declared s nm")
      case False
      with Cons.prems(2) have "nm \<noteq> x" by (auto simp: is_declared_def)
      then have "map_of (names (define_name nm val (c_int \<noteq> 0) s)) x = Some v"
        using Cons.prems(2) by (simp add: define_name_def map_of_names_put)
      with Cons.IH [of "define_name nm val (c_int \<noteq> 0) s"] Cons.prems(1,3) Entry False
      show ?thesis by simp
    next
      case True
      from Cons.prems(1) Entry True obtain option c where m: "menu [1, 2, 3] (cin s) = Some (option, c)"
        by (auto split: option.splits)
      let ?s1 = "s\<lparr>cin := c, cin_fail := False\<rparr>"
      have x1: "map_of (names ?s1) x = Some v" using Cons.prems(2) by simp
      consider "option = 1" | "option \<noteq> 1" "option = 2" | "option \<noteq> 1" "option \<noteq> 2" by blast
      then show ?thesis
      proof cases
        case 1
        with Cons.IH [of ?s1] Cons.prems(1,3) Entry True m x1 show ?thesis by (simp add: Let_def)
      next
        case 2
        with Cons.prems(3) Entry True m have ne: "nm \<noteq> x" by auto
        let ?s2 = "?s1\<lparr>names := names_put nm \<lparr>vname = nm, val = val, is_const = (c_int \<noteq> 0)\<rparr> (names ?s1)\<rparr>"
        have "map_of (names ?s2) x = Some v"
          using ne Cons.prems(2) by (simp add: map_of_names_put)
        with Cons.IH [of ?s2] Cons.prems(1,3) Entry True m 2 show ?thesis by (simp add: Let_def)
      next
        case 3
        let ?s3 = "define_name (rename_loop ?s1 nm 0) val (c_int \<noteq> 0) ?s1"
        have "\<not> is_declared ?s1 (rename_loop ?s1 nm 0)" by (rule rename_loop_undeclared)
        with x1 have "rename_loop ?s1 nm 0 \<noteq> x" by (auto simp: is_declared_def)
        then have "map_of (names ?s3) x = Some v"
          using Cons.prems(2) by (simp add: define_name_def map_of_names_put)
        with Cons.IH [of ?s3] Cons.prems(1,3) Entry True m 3 show ?thesis by (simp add: Let_def)
      qed
    qed
  qed
qed

lemma load_env_kept:
  assumes "load_env L s = Some (r, s')" and "map_of (names s) x = Some v"
    and "\<not> load_overwritten L s x"
  shows "map_of (names s') x = Some v"
proof (cases "map_of (files s) (current_filename s)")
  case None
  with assms(1,2) show ?thesis by (simp add: load_env_def throw_def)
next
  case (Some content)
  show ?thesis
  proof (cases "getlines [] content")
    case Nil
    with Some assms(1,2) show ?thesis by (simp add: load_env_def return_def)
  next
    case (Cons header lines)
    from assms(1) Some Cons obtain fp where fp: "read_header header = Some fp"
      by (auto simp: load_env_def split: option.splits)
    from assms(1) Some Cons fp obtain option c where m: "menu [1, 2] (cin s) = Some (option, c)"
      by (auto simp: load_env_def split: option.splits)
    let ?s1 = "s\<lparr>cin := c, cin_fail := False\<rparr>"
    show ?thesis
    proof (cases "option = 1")
      case False
      with assms Some Cons fp m show ?thesis
        by (auto simp: load_env_def load_overwritten_def dest: load_lines_kept)
    next
      case True
      show ?thesis
      proof (cases "fp < 0 \<or> 20 < fp")
        case True
        with assms(1,2) Some Cons fp m \<open>option = 1\<close> show ?thesis
          by (auto simp: load_env_def set_precision_int_def throw_def bind_simps)
      next
        case False
        let ?s2 = "?s1\<lparr>current_precision := fp\<rparr>"
        from False assms(1) Some Cons fp m \<open>option = 1\<close>
        have "load_lines L lines ?s2 = Some (r, s')"
          by (simp add: load_env_def set_precision_int_def return_def bind_simps)
        moreover have "map_of (names ?s2) x = Some v" using assms(2) by simp
        moreover have "\<not> overwritten L lines ?s2 x"
          using False assms(3) Some Cons fp m \<open>option = 1\<close>
          by (simp add: load_overwritten_def set_precision_int_def return_def)
        ultimately show ?thesis by (rule load_lines_kept)
      qed
    qed
  qed
qed

text \<open>
  C7. A turn of \<open>calculate\<close>, whether it ends with a result or with an exception, leaves
  every entry that is const as it was, unless the command is \<open>load env\<close> and a conflict
  on the name of the entry is settled by the overwrite. The statements, the other
  commands, and a \<open>load env\<close> whose conflicts on the name are settled by keeping the entry
  or by renaming the one of the file, keep it. The runs: after \<open>const pi = 3.14;\<close> the
  statement \<open>pi = 1;\<close> throws \<open>pi constant cannot be modified\<close> and \<open>pi\<close> is still 3.14;
  \<open>load env f\<close> of a file with a line for the constant \<open>k\<close>, answered by 1 (keep),
  leaves \<open>k\<close> as it was.
\<close>

theorem const_value_kept:
  assumes "map_of (names s) x = Some v" and "is_const v"
    and "calculate_turn L n s = Some (r, s')"
    and "\<forall>t s1. skip_print L n s = Some (Inr t, s1) \<and> kind t = load_env_token
           \<longrightarrow> \<not> load_overwritten L s1 x"
  shows "map_of (names s') x = Some v"
  using assms(3) unfolding calculate_turn_def
proof (cases rule: bindE)
  case (throws e)
  with assms(1) skip_print_env show ?thesis by (fastforce simp: same_env_def)
next
  case (returns t s1)
  from returns(1) have n1: "names s1 = names s"
    using skip_print_env by (fastforce simp: same_env_def)
  have x1: "map_of (names s1) x = Some v"
    using n1 assms(1) by simp
  have u: "map_of (names (unget t s1)) x = Some v"
    using n1 assms(1) by (simp add: unget_def)
  have k: "bind m (\<lambda>_. return y) = Some (r, s') \<Longrightarrow> (\<And>r1. m = Some (r1, s') \<Longrightarrow> names s' = names s1)
      \<Longrightarrow> names s' = names s1" for m y
    by (erule bindE) (auto simp: return_def)
  have st: "bind (statement L n (unget t s1)) (\<lambda>v. return (Result v)) = Some (r, s')
      \<Longrightarrow> map_of (names s') x = Some v"
    by (erule bindE) (auto simp: return_def dest: statement_const_kept [OF _ u assms(2)])
  have ld: "map_of (names s') x = Some v"
    if "kind t = load_env_token" "load_env L s1 = Some (r1, s')" for r1
    using load_env_kept [OF that(2) x1] assms(4) returns(1) that(1) by blast
  have ldb: "bind (load_env L s1) (\<lambda>_. return Continue) = Some (r, s')
      \<Longrightarrow> kind t = load_env_token \<Longrightarrow> map_of (names s') x = Some v"
    by (erule bindE) (auto simp: return_def dest: ld)
  from returns(2) consider "names s' = names s1" | "map_of (names s') x = Some v"
    by (auto simp: return_def split: if_splits
        dest: k [OF _ set_precision_names] k [OF _ show_env_names] k [OF _ save_env_names] st ldb)
  then show ?thesis using n1 assms(1) by cases simp_all
qed

theorem const_value_kept_witness:
  "calculate_turn exact 9 (start ''const pi = 3.14; pi = 1;'' [])
     = Some (Inr (Result 3.14),
         (start '' pi = 1;'' [(''pi'', \<lparr>vname = ''pi'', val = 3.14, is_const = True\<rparr>)])
           \<lparr>buffer := [Token_id exact print]\<rparr>)
   \<and> calculate_turn exact 9
        ((start '' pi = 1;'' [(''pi'', \<lparr>vname = ''pi'', val = 3.14, is_const = True\<rparr>)])
           \<lparr>buffer := [Token_id exact print]\<rparr>)
     = Some (Inl (Runtime_error ''pi constant cannot be modified''),
         (start '' 1;'' [(''pi'', \<lparr>vname = ''pi'', val = 3.14, is_const = True\<rparr>)])
           \<lparr>buffer := [Token_char exact (CHR ''='')]\<rparr>)
   \<and> map_of (names ((start '' 1;'' [(''pi'', \<lparr>vname = ''pi'', val = 3.14, is_const = True\<rparr>)])
           \<lparr>buffer := [Token_char exact (CHR ''='')]\<rparr>)) ''pi''
     = Some \<lparr>vname = ''pi'', val = 3.14, is_const = True\<rparr>
   \<and> (\<exists>s'. calculate_turn exact 9
          ((start ''load env f\<newline>2\<newline>1\<newline>'' [(''k'', \<lparr>vname = ''k'', val = 7, is_const = True\<rparr>)])
             \<lparr>files := [(''f'', ''Precision = 6\<newline>k = 3 is_const = 0\<newline>'')]\<rparr>)
          = Some (Inr Continue, s')
        \<and> map_of (names s') ''k'' = Some \<lparr>vname = ''k'', val = 7, is_const = True\<rparr>)"
proof -
  let ?pi = "\<lparr>vname = ''pi'', val = 3.14 :: real, is_const = True\<rparr>"
  let ?s1 = "(start '' pi = 1;'' [(''pi'', ?pi)])\<lparr>buffer := [Token_id exact print]\<rparr>"
  let ?s2 = "(start '' 1;'' [(''pi'', ?pi)])\<lparr>buffer := [Token_char exact (CHR ''='')]\<rparr>"
  let ?k = "\<lparr>vname = ''k'', val = 7 :: real, is_const = True\<rparr>"
  let ?f = "[(''f'', ''Precision = 6\<newline>k = 3 is_const = 0\<newline>'')]"
  let ?s3 = "(start ''load env f\<newline>2\<newline>1\<newline>'' [(''k'', ?k)])\<lparr>files := ?f\<rparr>"
  let ?s4 = "(start ''\<newline>2\<newline>1\<newline>'' [(''k'', ?k)])\<lparr>files := ?f, current_filename := ''f''\<rparr>"
  let ?s5 = "(start ''\<newline>'' [(''k'', ?k)])\<lparr>files := ?f, current_filename := ''f''\<rparr>"
  have 1: "calculate_turn exact 9 (start ''const pi = 3.14; pi = 1;'' []) = Some (Inr (Result 3.14), ?s1)"
    by (simp add: turn_run cong: bind_weak_cong)
  have 2: "calculate_turn exact 9 ?s1 = Some (Inl (Runtime_error ''pi constant cannot be modified''), ?s2)"
    by (simp add: turn_run cong: bind_weak_cong)
  have 3: "map_of (names ?s1) ''pi'' = Some ?pi" "is_const ?pi"
    by (simp_all add: start_def)
  have 4: "\<forall>t sa. skip_print exact 9 ?s1 = Some (Inr t, sa) \<and> kind t = load_env_token
      \<longrightarrow> \<not> load_overwritten exact sa ''pi''"
    by (simp add: turn_run cong: bind_weak_cong)
  have 5: "skip_print exact 9 ?s3 = Some (Inr (Token_id exact load_env_token), ?s4)"
    by (simp add: turn_run read_word_after_keyword_def read_filename_def filename_char_def
        cong: bind_weak_cong)
  have 6: "getlines [] ''Precision = 6\<newline>k = 3 is_const = 0\<newline>''
      = [''Precision = 6'', ''k = 3 is_const = 0'']"
    by simp
  have 7: "read_header ''Precision = 6'' = Some 6"
    by (simp add: read_header_def line_run)
  have 8: "read_line exact ''k = 3 is_const = 0'' = Entry ''k'' 3 0"
    by (simp add: line_run)
  have 9: "menu [1, 2] ''\<newline>2\<newline>1\<newline>'' = Some (2, ''\<newline>1\<newline>'')"
    "menu [1, 2, 3] ''\<newline>1\<newline>'' = Some (1, ''\<newline>'')"
    by (simp_all add: menu_run)
  have 10: "load_env exact ?s4 = Some (Inr (), ?s5)"
    by (simp add: load_env_def 6 7 8 9 start_def is_declared_def return_def)
  have 11: "\<not> load_overwritten exact ?s4 ''k''"
    by (simp add: load_overwritten_def 6 7 8 9 start_def is_declared_def)
  have 12: "calculate_turn exact 9 ?s3 = Some (Inr Continue, ?s5)"
    by (simp add: calculate_turn_def 5 10 bind_simps return_def Token_id_def)
  have 13: "map_of (names ?s3) ''k'' = Some ?k" "is_const ?k"
    by (simp_all add: start_def)
  have 14: "\<forall>t sa. skip_print exact 9 ?s3 = Some (Inr t, sa) \<and> kind t = load_env_token
      \<longrightarrow> \<not> load_overwritten exact sa ''k''"
    using 11 by (simp add: 5)
  from const_value_kept [OF 3 2 4] const_value_kept [OF 13 12 14] 1 2 12 show ?thesis
    by simp
qed

section \<open>The parser computes the value of an expression\<close>

subsection \<open>The buffer after a token is read\<close>

lemma read_word_after_keyword_buffer:
  "read_word_after_keyword k s = Some (r, s') \<Longrightarrow> buffer s' = buffer s"
  by (auto simp: read_word_after_keyword_def throw_def return_def Let_def
      split: if_splits list.splits)

lemma read_filename_buffer:
  "read_filename k s = Some (r, s') \<Longrightarrow> buffer s' = buffer s"
  by (auto simp: read_filename_def throw_def return_def split: if_splits list.splits)

lemma keyword_buffer:
  assumes "bind (read_word_after_keyword k s) (\<lambda>_. return T) = Some (r, s')"
  shows "buffer s' = buffer s"
  using assms
  by (cases rule: bindE) (auto simp: return_def dest: read_word_after_keyword_buffer)

lemma keyword_file_buffer:
  assumes "bind (read_word_after_keyword k s) (\<lambda>_ s1. bind (read_filename k s1) (\<lambda>f s2.
          return T (s2\<lparr>current_filename := f\<rparr>))) = Some (r, s')"
  shows "buffer s' = buffer s"
  using assms
proof (cases rule: bindE)
  case (throws e)
  then show ?thesis by (auto dest: read_word_after_keyword_buffer)
next
  case (returns x s1)
  from returns(2) show ?thesis
  proof (cases rule: bindE)
    case (throws e)
    with returns(1) show ?thesis
      by (auto dest!: read_word_after_keyword_buffer read_filename_buffer)
  next
    case (returns f s2)
    with \<open>read_word_after_keyword k s = Some (Inr x, s1)\<close> show ?thesis
      by (auto simp: return_def dest!: read_word_after_keyword_buffer read_filename_buffer)
  qed
qed

lemma get_word_buffer:
  "get_word L w s = Some (r, s') \<Longrightarrow> buffer s' = buffer s"
  unfolding get_word_def
  by (simp split: if_splits add: Let_def;
      (erule keyword_buffer | erule keyword_file_buffer | auto simp: return_def throw_def))

lemma get_buffer_empty:
  assumes "length (buffer s) \<le> 1" and "get L s = Some (r, s')"
  shows "buffer s' = []"
proof (cases "buffer s")
  case (Cons t b)
  with assms show ?thesis
    by (auto simp: get_def return_def)
next
  case Nil
  note buf = Nil
  show ?thesis
  proof (cases "dropWhile isspace (cin s)")
    case Nil
    show ?thesis
      using buf Nil assms(2) by (simp add: get_def split: if_splits del: dropWhile_eq_Nil_conv)
  next
    case (Cons ch rest)
    let ?w = "get_word L (ch # takeWhile (\<lambda>c. isalpha c \<or> isdigit c) rest)
                  (s\<lparr>cin := dropWhile (\<lambda>c. isalpha c \<or> isdigit c) rest\<rparr>)"
    let ?d = "case d_read L (ch # rest) of
                   (Some v, rest') \<Rightarrow> return (Token_double v) (s\<lparr>cin := rest'\<rparr>)
                 | (None, rest') \<Rightarrow>
                     return (Token_double (d_zero L)) (s\<lparr>cin := rest', cin_fail := True\<rparr>)"
    have nf: "\<not> cin_fail s"
      using buf assms(2) by (auto simp: get_def)
    from buf nf Cons assms(2)
    have g: "(if ch \<in> set ''()+-*/%=,'' then return (Token_char L ch) (s\<lparr>cin := rest\<rparr>)
              else if ch = CHR '';'' then return (Token_id L print) (s\<lparr>cin := rest\<rparr>)
              else if ch = CHR ''.'' \<or> isdigit ch then ?d
              else if isalpha ch then ?w
              else throw ''Bad token'' (s\<lparr>cin := rest\<rparr>)) = Some (r, s')"
      by (simp add: get_def)
    then consider "return (Token_char L ch) (s\<lparr>cin := rest\<rparr>) = Some (r, s')"
      | "return (Token_id L print) (s\<lparr>cin := rest\<rparr>) = Some (r, s')"
      | "?d = Some (r, s')" | "?w = Some (r, s')"
      | "throw ''Bad token'' (s\<lparr>cin := rest\<rparr>) = Some (r, s')"
      by (meson if_Some_split)
    then show ?thesis
    proof cases
      case 1 then show ?thesis using buf by (auto simp: return_def)
    next
      case 2 then show ?thesis using buf by (auto simp: return_def)
    next
      case 3 then show ?thesis using buf
        by (cases "d_read L (ch # rest)"; cases "fst (d_read L (ch # rest))") (auto simp: return_def)
    next
      case 4
      then have "buffer s' = buffer (s\<lparr>cin := dropWhile (\<lambda>c. isalpha c \<or> isdigit c) rest\<rparr>)"
        by (rule get_word_buffer)
      then show ?thesis using buf by simp
    next
      case 5 then show ?thesis using buf by (auto simp: throw_def)
    qed
  qed
qed

subsection \<open>Reading a sequence of tokens\<close>

lemma gets_Cons:
  "gets L (t # ts) s = Some s1 \<longleftrightarrow> (\<exists>s'. get L s = Some (Inr t, s') \<and> gets L ts s' = Some s1)"
  by (auto simp: gets.simps(2) split: option.splits sum.splits prod.splits if_splits)

lemma gets_append:
  "gets L (xs @ ys) s = Some s1 \<longleftrightarrow> (\<exists>sm. gets L xs s = Some sm \<and> gets L ys sm = Some s1)"
proof (induction xs arbitrary: s)
  case Nil
  show ?case by simp
next
  case (Cons x xs)
  show ?case
    unfolding append_Cons gets_Cons using Cons.IH by blast
qed

lemma gets_buffer:
  "length (buffer s) \<le> 1 \<Longrightarrow> gets L ts s = Some s' \<Longrightarrow> length (buffer s') \<le> 1"
proof (induction ts arbitrary: s)
  case Nil
  then show ?case by simp
next
  case (Cons t ts)
  from Cons.prems(2) obtain sa where sa: "get L s = Some (Inr t, sa)" "gets L ts sa = Some s'"
    unfolding gets_Cons by blast
  from Cons.prems(1) sa(1) have "buffer sa = []" by (rule get_buffer_empty)
  with Cons.IH [of sa] sa(2) show ?case by simp
qed

lemma gets_buffer_empty:
  assumes "length (buffer s) \<le> 1" and "gets L ts s = Some s'" and "ts \<noteq> []"
  shows "buffer s' = []"
proof -
  from assms(3) obtain xs x where ts: "ts = xs @ [x]"
    by (metis append_butlast_last_id)
  with assms(2) obtain sm sa where "gets L xs s = Some sm" "get L sm = Some (Inr x, s')"
    by (auto simp: gets_append gets_Cons)
  with assms(1) show ?thesis
    using gets_buffer get_buffer_empty by blast
qed

lemma get_unget: "buffer s = [] \<Longrightarrow> get L (unget t s) = Some (Inr t, s)"
  by (simp add: get_def unget_def return_def)

lemma gets_unget: "buffer s = [] \<Longrightarrow> gets L (t # ts) (unget t s) = gets L ts s"
  by (simp add: get_unget gets.simps(2))

lemma gets_lookahead:
  assumes "gets L (xs @ t # rest) s = Some s2" and "length (buffer s) \<le> 1"
  obtains sc where "gets L (xs @ [t]) s = Some sc" and "buffer sc = []"
    and "gets L (t # rest) (unget t sc) = Some s2"
proof -
  from assms(1) obtain sb sc where sb: "gets L xs s = Some sb" "get L sb = Some (Inr t, sc)"
    "gets L rest sc = Some s2"
    by (auto simp: gets_append gets_Cons)
  from assms(2) sb(1) have "length (buffer sb) \<le> 1" by (rule gets_buffer)
  with sb(2) have e: "buffer sc = []" using get_buffer_empty by blast
  moreover from sb have "gets L (xs @ [t]) s = Some sc"
    by (auto simp: gets_append gets_Cons)
  moreover from e sb(3) have "gets L (t # rest) (unget t sc) = Some s2"
    by (simp only: gets_unget)
  ultimately show ?thesis using that by blast
qed

subsection \<open>Results that agree with a value\<close>

lemma agrees_bind:
  assumes "agrees m v1 s1" and "\<And>x. v1 = Inr x \<Longrightarrow> agrees (f x s1) (g x) s2"
  shows "agrees (bind m f) (case v1 of Inl e \<Rightarrow> Inl e | Inr x \<Rightarrow> g x) s2"
  using assms by (cases v1) (auto simp: agrees_def bind_simps)

lemma agrees_return: "agrees (return x s) (Inr x) s"
  by (simp add: agrees_def return_def)

lemma agrees_throw: "agrees (throw msg s) (Inl (Runtime_error msg)) s1"
  by (simp add: agrees_def throw_def)

lemma agrees_get_bind:
  "get L s = Some (Inr t, sa) \<Longrightarrow> agrees (f t sa) v s1 \<Longrightarrow> agrees (bind (get L s) f) v s1"
  by (simp add: bind_simps)

subsection \<open>The parser on the tokens of an expression\<close>

lemma token_facts:
  "is_function (Token_char L c) = False"
  "kind (Token_char L c) = char_token"
  "is_symbol (Token_char L c) c' = (c = c')"
  "is_function (Token_double v) = False"
  "kind (Token_double v) = number"
  "tvalue (Token_double v) = v"
  by (auto simp: is_function_def is_symbol_def Token_char_def Token_double_def)

lemma summands_rest:
  obtains t' rest where "tokens_summands L q @ [t] = t' # rest"
    and "t' = t \<or> (\<exists>op. t' = Token_char L (add_symbol op))"
  by (cases q) auto

lemma add_symbol_not_mulop: "\<not> is_mulop (Token_char L (add_symbol op))"
  by (cases op) (simp_all add: is_mulop_def add_symbol_def token_facts)

lemma need_Suc:
  assumes "Suc k \<le> n"
  obtains m where "n = Suc m" and "k \<le> m"
  using assms by (cases n) auto

lemma parse_agrees:
  fixes L :: "'v double_ops"
  shows "need_prim p \<le> n \<Longrightarrow> length (buffer s) \<le> 1
      \<Longrightarrow> gets L (tokens_prim L p) s = Some s1
      \<Longrightarrow> agrees (primary L n s) (value_prim L p) s1"
    and "need_factors r \<le> n \<Longrightarrow> length (buffer s) \<le> 1
      \<Longrightarrow> gets L (tokens_factors L r @ [t]) s = Some s2 \<Longrightarrow> \<not> is_mulop t
      \<Longrightarrow> agrees (term_loop L n left s) (value_factors L r left) (unget t s2)"
    and "need_trm tr \<le> n \<Longrightarrow> length (buffer s) \<le> 1
      \<Longrightarrow> gets L (tokens_trm L tr @ [t]) s = Some s2 \<Longrightarrow> \<not> is_mulop t
      \<Longrightarrow> agrees (term' L n s) (value_trm L tr) (unget t s2)"
    and "need_summands q \<le> n \<Longrightarrow> length (buffer s) \<le> 1
      \<Longrightarrow> gets L (tokens_summands L q @ [t]) s = Some s2 \<Longrightarrow> \<not> is_mulop t \<Longrightarrow> \<not> is_addop t
      \<Longrightarrow> agrees (expression_loop L n left s) (value_summands L q left) (unget t s2)"
    and "need_expr e \<le> n \<Longrightarrow> length (buffer s) \<le> 1
      \<Longrightarrow> gets L (tokens_expr L e @ [t]) s = Some s2 \<Longrightarrow> \<not> is_mulop t \<Longrightarrow> \<not> is_addop t
      \<Longrightarrow> agrees (expression L n s) (value_expr L e) (unget t s2)"
proof (induction p and r and tr and q and e
    arbitrary: n s s1 and n s t s2 left and n s t s2 and n s t s2 left and n s t s2)
  case (Literal v)
  from Literal.prems(1) obtain m where n: "n = Suc m" by (cases n) auto
  from Literal.prems(3) have "get L s = Some (Inr (Token_double v), s1)"
    by (simp add: gets_Cons)
  then show ?case
    by (simp add: n bind_simps token_facts agrees_return)
next
  case (Parens e)
  from Parens.prems(1) obtain m where n: "n = Suc m" and m: "need_expr e \<le> m"
    by (auto elim: need_Suc)
  let ?close = "Token_char L (CHR '')'')"
  from Parens.prems(3) obtain sa where sa: "get L s = Some (Inr (Token_char L (CHR ''('')), sa)"
    and rest: "gets L (tokens_expr L e @ [?close]) sa = Some s1"
    by (auto simp: gets_Cons)
  from Parens.prems(2) sa have ba: "buffer sa = []" by (rule get_buffer_empty)
  then have la: "length (buffer sa) \<le> 1" by simp
  have c: "\<not> is_mulop ?close" "\<not> is_addop ?close"
    by (simp_all add: is_mulop_def is_addop_def token_facts)
  have e: "agrees (expression L m sa) (value_expr L e) (unget ?close s1)"
    using Parens.IH [OF m la rest c] .
  from la rest have b1: "buffer s1 = []" by (rule gets_buffer_empty) simp
  have "agrees (bind (expression L m sa) (\<lambda>d s2. bind (get L s2) (\<lambda>t s3.
          if \<not> is_symbol t (CHR '')'') then throw (quoted ''('' @ '' expected'') s3
          else return d s3)))
        (case value_expr L e of Inl x \<Rightarrow> Inl x | Inr d \<Rightarrow> Inr d) s1"
    using e
  proof (rule agrees_bind)
    fix d
    show "agrees (bind (get L (unget ?close s1)) (\<lambda>t s3.
          if \<not> is_symbol t (CHR '')'') then throw (quoted ''('' @ '' expected'') s3
          else return d s3)) (Inr d) s1"
      by (simp add: get_unget [OF b1] bind_simps token_facts agrees_return)
  qed
  moreover have "(case value_expr L e of Inl x \<Rightarrow> Inl x | Inr d \<Rightarrow> Inr d) = value_expr L e"
    by (cases "value_expr L e") simp_all
  ultimately show ?case
    using sa by (simp add: n bind_simps token_facts)
next
  case (Negate p)
  from Negate.prems(1) obtain m where n: "n = Suc m" and m: "need_prim p \<le> m"
    by (auto elim: need_Suc)
  from Negate.prems(3) obtain sa where sa: "get L s = Some (Inr (Token_char L (CHR ''-'')), sa)"
    and rest: "gets L (tokens_prim L p) sa = Some s1"
    by (auto simp: gets_Cons)
  from Negate.prems(2) sa have "buffer sa = []" by (rule get_buffer_empty)
  then have la: "length (buffer sa) \<le> 1" by simp
  have "agrees (bind (primary L m sa) (\<lambda>d. return (d_neg L d)))
        (case value_prim L p of Inl x \<Rightarrow> Inl x | Inr d \<Rightarrow> Inr (d_neg L d)) s1"
    using Negate.IH [OF m la rest] by (rule agrees_bind) (rule agrees_return)
  then show ?case
    using sa by (simp add: n bind_simps token_facts)
next
  case (Posit p)
  from Posit.prems(1) obtain m where n: "n = Suc m" and m: "need_prim p \<le> m"
    by (auto elim: need_Suc)
  from Posit.prems(3) obtain sa where sa: "get L s = Some (Inr (Token_char L (CHR ''+'')), sa)"
    and rest: "gets L (tokens_prim L p) sa = Some s1"
    by (auto simp: gets_Cons)
  from Posit.prems(2) sa have "buffer sa = []" by (rule get_buffer_empty)
  then have la: "length (buffer sa) \<le> 1" by simp
  from Posit.IH [OF m la rest] show ?case
    using sa by (simp add: n bind_simps token_facts)
next
  case No_factor
  from No_factor.prems(1) obtain m where n: "n = Suc m" by (cases n) auto
  from No_factor.prems(3) have "get L s = Some (Inr t, s2)"
    by (simp add: gets_Cons)
  with No_factor.prems(4) show ?case
    by (simp add: n bind_simps is_mulop_def agrees_return)
next
  case (Factor op p r)
  from Factor.prems(1) obtain m where n: "n = Suc m" and m: "need_prim p \<le> m" "need_factors r \<le> m"
    by (auto elim: need_Suc)
  from Factor.prems(3) obtain sa sb where sa: "get L s = Some (Inr (Token_char L (mul_symbol op)), sa)"
    and pb: "gets L (tokens_prim L p) sa = Some sb"
    and rest: "gets L (tokens_factors L r @ [t]) sb = Some s2"
    by (auto simp: gets_Cons gets_append)
  from Factor.prems(2) sa have "buffer sa = []" by (rule get_buffer_empty)
  then have la: "length (buffer sa) \<le> 1" by simp
  from la pb have lb: "length (buffer sb) \<le> 1" by (rule gets_buffer)
  have p: "agrees (primary L m sa) (value_prim L p) sb"
    using Factor.IH(1) [OF m(1) la pb] .
  have r: "agrees (term_loop L m x sb) (value_factors L r x) (unget t s2)" for x
    using Factor.IH(2) [OF m(2) lb rest Factor.prems(4)] .
  show ?case
  proof (cases op)
    case Times
    have "agrees (bind (primary L m sa) (\<lambda>d. term_loop L m (d_mul L left d)))
        (case value_prim L p of Inl x \<Rightarrow> Inl x | Inr d \<Rightarrow> value_factors L r (d_mul L left d))
        (unget t s2)"
      using p by (rule agrees_bind) (rule r)
    then show ?thesis
      using sa Times by (simp add: n bind_simps token_facts mul_symbol_def cong: sum.case_cong)
  next
    case Divide
    have "agrees (bind (primary L m sa) (\<lambda>d s2.
           if d_is_zero L d then throw ''divide by zero'' s2
           else term_loop L m (d_div L left d) s2))
        (case value_prim L p of Inl x \<Rightarrow> Inl x | Inr d \<Rightarrow>
           if d_is_zero L d then Inl (Runtime_error ''divide by zero'')
           else value_factors L r (d_div L left d))
        (unget t s2)"
      using p by (rule agrees_bind) (simp add: r agrees_throw)
    then show ?thesis
      using sa Divide by (simp add: n bind_simps token_facts mul_symbol_def cong: sum.case_cong)
  next
    case Modulo
    have "agrees (bind (primary L m sa) (\<lambda>d s2.
           if d_is_zero L d then throw ''divide by zero'' s2
           else term_loop L m (d_fmod L left d) s2))
        (case value_prim L p of Inl x \<Rightarrow> Inl x | Inr d \<Rightarrow>
           if d_is_zero L d then Inl (Runtime_error ''divide by zero'')
           else value_factors L r (d_fmod L left d))
        (unget t s2)"
      using p by (rule agrees_bind) (simp add: r agrees_throw)
    then show ?thesis
      using sa Modulo by (simp add: n bind_simps token_facts mul_symbol_def cong: sum.case_cong)
  qed
next
  case (Term p r)
  from Term.prems(1) obtain m where n: "n = Suc m" and m: "need_prim p \<le> m" "need_factors r \<le> m"
    by (auto elim: need_Suc)
  from Term.prems(3) obtain sb where pb: "gets L (tokens_prim L p) s = Some sb"
    and rest: "gets L (tokens_factors L r @ [t]) sb = Some s2"
    by (auto simp: gets_append)
  from Term.prems(2) pb have lb: "length (buffer sb) \<le> 1" by (rule gets_buffer)
  have "agrees (bind (primary L m s) (\<lambda>left. term_loop L m left))
      (case value_prim L p of Inl x \<Rightarrow> Inl x | Inr a \<Rightarrow> value_factors L r a) (unget t s2)"
    using Term.IH(1) [OF m(1) Term.prems(2) pb]
    by (rule agrees_bind) (rule Term.IH(2) [OF m(2) lb rest Term.prems(4)])
  then show ?case by (simp add: n)
next
  case No_summand
  from No_summand.prems(1) obtain m where n: "n = Suc m" by (cases n) auto
  from No_summand.prems(3) have "get L s = Some (Inr t, s2)"
    by (simp add: gets_Cons)
  with No_summand.prems(5) show ?case
    by (simp add: n bind_simps is_addop_def agrees_return)
next
  case (Summand op tr q)
  from Summand.prems(1) obtain m where n: "n = Suc m" and m: "need_trm tr \<le> m" "need_summands q \<le> m"
    by (auto elim: need_Suc)
  obtain t' rest where rest: "tokens_summands L q @ [t] = t' # rest"
    and t': "t' = t \<or> (\<exists>op. t' = Token_char L (add_symbol op))"
    by (rule summands_rest)
  from t' Summand.prems(4) have nm: "\<not> is_mulop t'"
    using add_symbol_not_mulop by blast
  from Summand.prems(3) obtain sa where sa: "get L s = Some (Inr (Token_char L (add_symbol op)), sa)"
    and all: "gets L (tokens_trm L tr @ t' # rest) sa = Some s2"
    by (auto simp: gets_Cons rest)
  from Summand.prems(2) sa have "buffer sa = []" by (rule get_buffer_empty)
  then have la: "length (buffer sa) \<le> 1" by simp
  from all la obtain sc where sc: "gets L (tokens_trm L tr @ [t']) sa = Some sc" "buffer sc = []"
    "gets L (t' # rest) (unget t' sc) = Some s2"
    by (rule gets_lookahead)
  have lc: "length (buffer (unget t' sc)) \<le> 1"
    using sc(2) by (simp add: unget_def)
  have tr: "agrees (term' L m sa) (value_trm L tr) (unget t' sc)"
    using Summand.IH(1) [OF m(1) la sc(1) nm] .
  have q: "agrees (expression_loop L m x (unget t' sc)) (value_summands L q x) (unget t s2)" for x
    using Summand.IH(2) [OF m(2) lc _ Summand.prems(4,5)] sc(3) rest by simp
  show ?case
  proof (cases op)
    case Add
    have "agrees (bind (term' L m sa) (\<lambda>d. expression_loop L m (d_add L left d)))
        (case value_trm L tr of Inl x \<Rightarrow> Inl x | Inr d \<Rightarrow> value_summands L q (d_add L left d))
        (unget t s2)"
      using tr by (rule agrees_bind) (rule q)
    then show ?thesis
      using sa Add by (simp add: n bind_simps token_facts add_symbol_def cong: sum.case_cong)
  next
    case Subtract
    have "agrees (bind (term' L m sa) (\<lambda>d. expression_loop L m (d_sub L left d)))
        (case value_trm L tr of Inl x \<Rightarrow> Inl x | Inr d \<Rightarrow> value_summands L q (d_sub L left d))
        (unget t s2)"
      using tr by (rule agrees_bind) (rule q)
    then show ?thesis
      using sa Subtract by (simp add: n bind_simps token_facts add_symbol_def cong: sum.case_cong)
  qed
next
  case (Expr tr q)
  from Expr.prems(1) obtain m where n: "n = Suc m" and m: "need_trm tr \<le> m" "need_summands q \<le> m"
    by (auto elim: need_Suc)
  obtain t' rest where rest: "tokens_summands L q @ [t] = t' # rest"
    and t': "t' = t \<or> (\<exists>op. t' = Token_char L (add_symbol op))"
    by (rule summands_rest)
  from t' Expr.prems(4) have nm: "\<not> is_mulop t'"
    using add_symbol_not_mulop by blast
  from Expr.prems(3) have all: "gets L (tokens_trm L tr @ t' # rest) s = Some s2"
    by (simp add: rest)
  from all Expr.prems(2) obtain sc where sc: "gets L (tokens_trm L tr @ [t']) s = Some sc"
    "buffer sc = []" "gets L (t' # rest) (unget t' sc) = Some s2"
    by (rule gets_lookahead)
  have lc: "length (buffer (unget t' sc)) \<le> 1"
    using sc(2) by (simp add: unget_def)
  have q: "agrees (expression_loop L m x (unget t' sc)) (value_summands L q x) (unget t s2)" for x
    using Expr.IH(2) [OF m(2) lc _ Expr.prems(4,5)] sc(3) rest by simp
  have "agrees (bind (term' L m s) (\<lambda>left. expression_loop L m left))
      (case value_trm L tr of Inl x \<Rightarrow> Inl x | Inr a \<Rightarrow> value_summands L q a) (unget t s2)"
    using Expr.IH(1) [OF m(1) Expr.prems(2) sc(1) nm] by (rule agrees_bind) (rule q)
  then show ?case by (simp add: n)
qed

subsection \<open>Precedence and order of evaluation\<close>

text \<open>The reference values: the product first, and equal operators from left to right.\<close>

lemma value_precedence:
  "value_expr L (Expr (Term (Literal a) No_factor)
      (Summand Add (Term (Literal b) (Factor Times (Literal c) No_factor)) No_summand))
     = Inr (d_add L a (d_mul L b c))"
  by simp

lemma value_left_to_right:
  "value_expr L (Expr (Term (Literal a) No_factor)
      (Summand Subtract (Term (Literal b) No_factor)
        (Summand Subtract (Term (Literal c) No_factor) No_summand)))
     = Inr (d_sub L (d_sub L a b) c)"
  "value_trm L (Term (Literal a) (Factor Divide (Literal b) (Factor Times (Literal c) No_factor)))
     = (if d_is_zero L b then Inl (Runtime_error ''divide by zero'')
        else Inr (d_mul L (d_div L a b) c))"
  by simp_all

text \<open>
  C8. For every expression \<open>e\<close> built from numbers, parentheses, signs and the operators
  \<open>+ - * / %\<close>: when the token stream holds at most one token in the buffer and delivers
  the tokens of \<open>e\<close> followed by a token \<open>t\<close> that is not one of the five operators,
  \<open>expression\<close> returns the value of \<open>e\<close> by the usual rules, with \<open>t\<close> pushed back,
  or throws the error of that value. Any depth from \<open>need_expr e\<close> on is enough.
\<close>

theorem expression_value:
  assumes "length (buffer s) \<le> 1"
    and "gets L (tokens_expr L e @ [t]) s = Some s'"
    and "\<not> is_symbol t (CHR ''+'')" and "\<not> is_symbol t (CHR ''-'')"
    and "\<not> is_symbol t (CHR ''*'')" and "\<not> is_symbol t (CHR ''/'')"
    and "\<not> is_symbol t (CHR ''%'')"
    and "need_expr e \<le> n"
  shows "case value_expr L e of
           Inr v \<Rightarrow> expression L n s = Some (Inr v, unget t s')
         | Inl err \<Rightarrow> (\<exists>s''. expression L n s = Some (Inl err, s''))"
proof -
  have "\<not> is_mulop t" "\<not> is_addop t"
    using assms(3-7) by (simp_all add: is_mulop_def is_addop_def)
  with assms(1,2,8) have "agrees (expression L n s) (value_expr L e) (unget t s')"
    by (simp add: parse_agrees(5))
  then show ?thesis by (simp add: agrees_def)
qed

theorem expression_value_witness:
  "expression exact 9 (start ''2 + 3 * 4;'' [])
     = Some (Inr 14, unget (Token_id exact print) (start [] []))
   \<and> expression exact 9 (start ''(2 + 3) * 4;'' [])
     = Some (Inr 20, unget (Token_id exact print) (start [] []))"
proof -
  let ?lit = "\<lambda>v. Term (Literal (v::real)) No_factor"
  let ?e1 = "Expr (?lit 2) (Summand Add (Term (Literal 3) (Factor Times (Literal 4) No_factor)) No_summand)"
  let ?e2 = "Expr (Term (Parens (Expr (?lit 2) (Summand Add (?lit 3) No_summand)))
               (Factor Times (Literal 4) No_factor)) No_summand"
  let ?t = "Token_id exact print"
  have b: "length (buffer (start c [] :: real calc)) \<le> 1" for c
    by (simp add: start_def)
  have g1: "gets exact (tokens_expr exact ?e1 @ [?t]) (start ''2 + 3 * 4;'' []) = Some (start [] [])"
    by (simp add: gets.simps run mul_symbol_def add_symbol_def)
  have g2: "gets exact (tokens_expr exact ?e2 @ [?t]) (start ''(2 + 3) * 4;'' []) = Some (start [] [])"
    by (simp add: gets.simps run mul_symbol_def add_symbol_def)
  have t: "\<not> is_symbol ?t (CHR ''+'')" "\<not> is_symbol ?t (CHR ''-'')" "\<not> is_symbol ?t (CHR ''*'')"
    "\<not> is_symbol ?t (CHR ''/'')" "\<not> is_symbol ?t (CHR ''%'')"
    by (simp_all add: is_symbol_def Token_id_def)
  have n: "need_expr ?e1 \<le> 9" "need_expr ?e2 \<le> 9" by simp_all
  have v: "value_expr exact ?e1 = Inr 14" "value_expr exact ?e2 = Inr 20"
    by (simp_all add: exact_def)
  from expression_value [OF b g1 t n(1)] expression_value [OF b g2 t n(2)] v
  show ?thesis by simp
qed

end
